theory Spec2Isabelle
  imports Main
begin

unbundle bit_operations_syntax

section \<open>Limb parameters\<close>

text \<open>
  Modelled from the spec: the limb widths \<open>L\<close>, \<open>L2\<close>, \<open>L3\<close> and the masks
  \<open>lMask\<close>, \<open>l2Mask\<close> are imported by \<^verbatim>\<open>foreign-field.ts\<close> from
  \<^verbatim>\<open>range-check.js\<close>, which is not among the sources. The spec fixes
  \<open>L = 88\<close>, \<open>L2 = 2L = 176\<close>, \<open>L3 = 3L = 264\<close>; a mask of width \<open>w\<close> is
  \<open>(1 << w) - 1\<close>.
\<close>

definition L :: nat where
  "L = 88"

definition L2 :: nat where
  "L2 = 176"

definition L3 :: nat where
  "L3 = 264"

definition lMask :: int where
  "lMask = push_bit L 1 - 1"

definition l2Mask :: int where
  "l2Mask = push_bit L2 1 - 1"

section \<open>Limb codec\<close>

text \<open>
  \<^verbatim>\<open>bigint\<close> is an unbounded integer: \<open>int\<close>. On \<open>int\<close>, \<open>AND\<close>, \<open>drop_bit\<close> and
  \<open>push_bit\<close> are the two's-complement operations \<^verbatim>\<open>&\<close>, \<^verbatim>\<open>>>\<close> and \<^verbatim>\<open><<\<close> of
  \<^verbatim>\<open>bigint\<close>.
\<close>

type_synonym bigint3 = "int \<times> int \<times> int"

fun collapse :: "bigint3 \<Rightarrow> int" where
  "collapse (x0, x1, x2) = x0 + push_bit L x1 + push_bit L2 x2"

definition split :: "int \<Rightarrow> bigint3" where
  "split x = (x AND lMask, drop_bit L x AND lMask, drop_bit L2 x AND lMask)"

text \<open>
  \<^verbatim>\<open>collapse2\<close> destructures \<^verbatim>\<open>[x0, x1]\<close> from a pair or from a triple, whose third
  limb it ignores; \<open>lo2\<close> is that destructuring of a triple.
\<close>

fun collapse2 :: "int \<times> int \<Rightarrow> int" where
  "collapse2 (x0, x1) = x0 + push_bit L x1"

fun lo2 :: "bigint3 \<Rightarrow> int \<times> int" where
  "lo2 (x0, x1, x2) = (x0, x1)"

definition split2 :: "int \<Rightarrow> int \<times> int" where
  "split2 x = (x AND lMask, drop_bit L x AND lMask)"

section \<open>Collaborators outside the sources\<close>

text \<open>
  Modelled from the spec: \<^verbatim>\<open>mod\<close> of \<^verbatim>\<open>bindings/crypto/finite_field.js\<close> is not among the
  sources. The spec uses it as reduction modulo \<open>f\<close>: for \<open>0 < f\<close> the residue in
  \<open>[0, f)\<close>. Nothing below relies on its value at \<open>f \<le> 0\<close>.
\<close>

definition ff_mod :: "int \<Rightarrow> int \<Rightarrow> int" where
  "ff_mod x f = x mod f"

text \<open>
  Modelled from the spec: \<^verbatim>\<open>inverse\<close> of \<^verbatim>\<open>bindings/crypto/finite_field.js\<close> (imported as
  \<^verbatim>\<open>modInverse\<close>) is not among the sources. The spec: the direct modular inverse, which
  signals "no inverse" (\<^verbatim>\<open>undefined\<close>, here \<open>None\<close>) if \<open>gcd(x, f) \<noteq> 1\<close>. The inverse
  is computed from the Bezout coefficients of \<open>x mod f\<close> and \<open>f\<close> and reduced into
  \<open>[0, f)\<close>.
\<close>

definition modInverse :: "int \<Rightarrow> int \<Rightarrow> int option" where
  "modInverse x f =
     (if gcd x f = 1 then Some (fst (bezw (nat (x mod f)) (nat f)) mod f) else None)"

text \<open>
  Modelled from the spec: \<^verbatim>\<open>bitSlice\<close> of \<^verbatim>\<open>gadgets/common.js\<close> is not among the sources.
  \<open>bitSlice x start length\<close> is the window of \<open>length\<close> bits of \<open>x\<close> that starts at bit
  \<open>start\<close>.
\<close>

definition bitSlice :: "int \<Rightarrow> nat \<Rightarrow> nat \<Rightarrow> int" where
  "bitSlice x start len = drop_bit start x AND (push_bit len 1 - 1)"

text \<open>
  The division \<^verbatim>\<open>/\<close> of \<^verbatim>\<open>bigint\<close> truncates towards zero and throws a \<^verbatim>\<open>RangeError\<close> on
  a zero divisor; a failed \<^verbatim>\<open>assert\<close> throws with its message.
\<close>

datatype error = AssertionError string | RangeError

definition bigint_div :: "int \<Rightarrow> int \<Rightarrow> error + int" where
  "bigint_div a b = (if b = 0 then Inl RangeError else Inr (sgn a * sgn b * (\<bar>a\<bar> div \<bar>b\<bar>)))"

subsection \<open>Native field values\<close>

text \<open>
  Modelled from the spec: the native field type \<^verbatim>\<open>Field\<close> (\<^verbatim>\<open>field.js\<close>) is not among the
  sources. A value is tagged as a constant or as a circuit variable; a variable carries
  the value the witness assignment gives it. The order of the native field is the
  parameter \<open>p\<close> of every operation that builds a field value: \<^verbatim>\<open>new Field(x)\<close> reduces
  \<open>x\<close> modulo \<open>p\<close>, and so do addition and multiplication. An operation on constants
  yields a constant, any other a variable. \<^verbatim>\<open>equals\<close> and \<^verbatim>\<open>and\<close> build a boolean
  that \<^verbatim>\<open>assertFalse\<close> then constrains.
\<close>

datatype Field = Constant int | Variable int

fun isConstant :: "Field \<Rightarrow> bool" where
  "isConstant (Constant v) = True"
| "isConstant (Variable v) = False"

fun toBigInt :: "Field \<Rightarrow> int" where
  "toBigInt (Constant v) = v"
| "toBigInt (Variable v) = v"

definition Field_new :: "int \<Rightarrow> int \<Rightarrow> Field" where
  "Field_new p x = Constant (x mod p)"

definition Field_add :: "int \<Rightarrow> Field \<Rightarrow> Field \<Rightarrow> Field" where
  "Field_add p x y =
     (if isConstant x \<and> isConstant y then Constant ((toBigInt x + toBigInt y) mod p)
      else Variable ((toBigInt x + toBigInt y) mod p))"

definition Field_mul :: "int \<Rightarrow> Field \<Rightarrow> Field \<Rightarrow> Field" where
  "Field_mul p x y =
     (if isConstant x \<and> isConstant y then Constant ((toBigInt x * toBigInt y) mod p)
      else Variable ((toBigInt x * toBigInt y) mod p))"

datatype Bool = Equals Field Field | And Bool Bool


type_synonym Field3 = "Field \<times> Field \<times> Field"

datatype Sign = Minus1 | Plus1

fun sign_val :: "Sign \<Rightarrow> int" where
  "sign_val Minus1 = - 1"
| "sign_val Plus1 = 1"

fun map3 :: "('a \<Rightarrow> 'b) \<Rightarrow> 'a \<times> 'a \<times> 'a \<Rightarrow> 'b \<times> 'b \<times> 'b" where
  "map3 g (x0, x1, x2) = (g x0, g x1, g x2)"

fun every3 :: "('a \<Rightarrow> bool) \<Rightarrow> 'a \<times> 'a \<times> 'a \<Rightarrow> bool" where
  "every3 P (x0, x1, x2) = (P x0 \<and> P x1 \<and> P x2)"

definition Field3 :: "int \<Rightarrow> bigint3 \<Rightarrow> Field3" where
  "Field3 p x = map3 (Field_new p) x"

definition bigint3 :: "Field3 \<Rightarrow> bigint3" where
  "bigint3 x = map3 toBigInt x"

definition ForeignField_from :: "int \<Rightarrow> int \<Rightarrow> Field3" where
  "ForeignField_from p x = Field3 p (split x)"

definition ForeignField_toBigint :: "Field3 \<Rightarrow> int" where
  "ForeignField_toBigint x = collapse (bigint3 x)"

subsection \<open>The circuit under construction\<close>

text \<open>
  Modelled from the spec: the gate backend (\<^verbatim>\<open>gates.js\<close>), the range checks
  (\<^verbatim>\<open>range-check.js\<close>), and \<^verbatim>\<open>assert\<close>, \<^verbatim>\<open>toVar\<close> and the witness primitive
  \<^verbatim>\<open>exists\<close> (\<^verbatim>\<open>common.js\<close>) are not among the sources. The circuit is the state
  every operation threads: the witness values allocated so far and the rows and
  assertions emitted so far, in order. A gate is the record of its fields; the field
  names of the source are given beside each row. A range check and an assertion are
  recorded as rows, not solved. \<^verbatim>\<open>exists(n, compute)\<close> runs \<open>compute\<close> in the witness
  pass and turns its \<open>n\<close> values into \<open>n\<close> new variables. An exception leaves the
  circuit as it was when thrown.
\<close>

datatype constraint =
    ForeignFieldAdd Field3 Field3 Field Field bigint3 Sign
      \<comment> \<open>left, right, overflow, carry, modulus, sign\<close>
  | ForeignFieldMul Field3 Field3 "Field \<times> Field" Field3 Field Field3 Field
      "Field list" "Field list" int bigint3
      \<comment> \<open>left, right, remainder, quotient, quotientHiBound, product1, carry0, carry1p,
          carry1c, foreignFieldModulus2, negForeignFieldModulus\<close>
  | Zero Field3
  | MultiRangeCheck Field3
  | CompactMultiRangeCheck Field Field Field3
  | AssertEquals Field Field
  | AssertFalse Bool

record circuit =
  witnesses :: "int list"
  constraints :: "constraint list"

type_synonym 'a prov = "circuit \<Rightarrow> (error + 'a) \<times> circuit"

definition ret :: "'a \<Rightarrow> 'a prov" where
  "ret x s = (Inr x, s)"

definition throw :: "error \<Rightarrow> 'a prov" where
  "throw e s = (Inl e, s)"

definition andThen :: "'a prov \<Rightarrow> ('a \<Rightarrow> 'b prov) \<Rightarrow> 'b prov" where
  "andThen m k s = (case m s of (Inl e, s') \<Rightarrow> (Inl e, s') | (Inr x, s') \<Rightarrow> k x s')"

definition assert :: "bool \<Rightarrow> string \<Rightarrow> unit prov" where
  "assert b msg = (if b then ret () else throw (AssertionError msg))"

definition emit :: "constraint \<Rightarrow> unit prov" where
  "emit c s = (Inr (), s\<lparr>constraints := constraints s @ [c]\<rparr>)"

definition exists :: "int \<Rightarrow> nat \<Rightarrow> (error + int list) \<Rightarrow> (Field list) prov" where
  "exists p n compute =
     (case compute of
        Inl e \<Rightarrow> throw e
      | Inr vs \<Rightarrow>
          andThen (assert (length vs = n) ''witness count'') (\<lambda>_ s.
            (Inr (map (\<lambda>v. Variable (v mod p)) vs),
             s\<lparr>witnesses := witnesses s @ map (\<lambda>v. v mod p) vs\<rparr>)))"

definition multiRangeCheck :: "Field3 \<Rightarrow> unit prov" where
  "multiRangeCheck x = emit (MultiRangeCheck x)"

definition compactMultiRangeCheck :: "int \<Rightarrow> Field \<Rightarrow> Field \<Rightarrow> Field3 prov" where
  "compactMultiRangeCheck p xy z =
     andThen (exists p 2 (Inr (case split2 (toBigInt xy) of (x0, x1) \<Rightarrow> [x0, x1]))) (\<lambda>w.
     let x = (w ! 0, w ! 1, z) in
     andThen (emit (CompactMultiRangeCheck xy z x)) (\<lambda>_.
     ret x))"

definition assertEquals :: "Field \<Rightarrow> Field \<Rightarrow> unit prov" where
  "assertEquals x y = emit (AssertEquals x y)"

definition assertFalse :: "Bool \<Rightarrow> unit prov" where
  "assertFalse b = emit (AssertFalse b)"

definition toVar :: "int \<Rightarrow> int \<Rightarrow> Field prov" where
  "toVar p x =
     andThen (exists p 1 (Inr [x])) (\<lambda>w.
     andThen (assertEquals (w ! 0) (Field_new p x)) (\<lambda>_.
     ret (w ! 0)))"

text \<open>
  Modelled from the spec: a range check proves that a value lies in \<open>[0, 2^L)\<close>.
\<close>

definition rangeCheckOk :: "int \<Rightarrow> bool" where
  "rangeCheckOk v = (0 \<le> v \<and> v < 2 ^ L)"

section \<open>Sum chain\<close>

text \<open>
  The callback of \<^verbatim>\<open>exists(5, ...)\<close> in \<^verbatim>\<open>singleAdd\<close>: the five witness values
  \<open>[r0, r1, r2, overflow, carry]\<close> as integers. The source's \<^verbatim>\<open>x_\<close>, \<^verbatim>\<open>y_\<close> and
  \<^verbatim>\<open>f_\<close> are written \<open>x'\<close>, \<open>y'\<close> and \<open>f'\<close>; the sign \<^verbatim>\<open>-1n | 1n\<close> is the type
  \<open>Sign\<close> and \<open>sign_val\<close> its integer.
\<close>

definition singleAdd_compute :: "bigint3 \<Rightarrow> bigint3 \<Rightarrow> Sign \<Rightarrow> int \<Rightarrow> bigint3 \<Rightarrow> int list" where
  "singleAdd_compute x' y' sign f f' =
     (let r = collapse x' + sign_val sign * collapse y';
          overflow = 0;
          overflow = (if sign = Plus1 \<and> r \<ge> f then 1 else overflow);
          overflow = (if sign = Minus1 \<and> r < 0 then - 1 else overflow);
          overflow = (if f = 0 then 0 else overflow);
          r01 = collapse2 (lo2 x') + sign_val sign * collapse2 (lo2 y')
                  - overflow * collapse2 (lo2 f');
          carry = drop_bit L2 r01;
          r01 = r01 AND l2Mask;
          (r0, r1) = split2 r01;
          r2 = snd (snd x') + sign_val sign * snd (snd y') - overflow * snd (snd f') + carry
      in [r0, r1, r2, overflow, carry])"

definition singleAdd :: "int \<Rightarrow> Field3 \<Rightarrow> Field3 \<Rightarrow> Sign \<Rightarrow> int \<Rightarrow> (Field3 \<times> Field) prov" where
  "singleAdd p x y sign f =
     (let f' = split f in
      andThen (exists p 5 (Inr (singleAdd_compute (bigint3 x) (bigint3 y) sign f f'))) (\<lambda>w.
      let r0 = w ! 0; r1 = w ! 1; r2 = w ! 2; overflow = w ! 3; carry = w ! 4 in
      andThen (emit (ForeignFieldAdd x y overflow carry f' sign)) (\<lambda>_.
      ret ((r0, r1, r2), overflow))))"

text \<open>
  The loop of the provable case: step \<open>i\<close> adds \<open>x[i + 1]\<close> with \<open>sign[i]\<close> to the running
  result. The length assertion makes the pairs \<open>(sign[i], x[i + 1])\<close> the zip of \<open>sign\<close>
  with the tail of \<open>x\<close>.
\<close>

fun sumChain_loop :: "int \<Rightarrow> Field3 \<Rightarrow> (Sign \<times> Field3) list \<Rightarrow> int \<Rightarrow> Field3 prov" where
  "sumChain_loop p result [] f = ret result"
| "sumChain_loop p result ((s, xi) # rest) f =
     andThen (singleAdd p result xi s f) (\<lambda>(result', overflow).
     sumChain_loop p result' rest f)"

definition sumChain :: "int \<Rightarrow> Field3 list \<Rightarrow> Sign list \<Rightarrow> int \<Rightarrow> Field3 prov" where
  "sumChain p x sign f =
     andThen (assert (length x = length sign + 1) ''inputs and operators match'') (\<lambda>_.
     if list_all (every3 isConstant) x then
       (let xBig = map ForeignField_toBigint x;
            sum = foldl (\<lambda>sum (s, xi). sum + sign_val s * xi) (hd xBig) (zip sign (tl xBig))
        in ret (ForeignField_from p (ff_mod sum f)))
     else
       andThen (sumChain_loop p (hd x) (zip sign (tl x)) f) (\<lambda>result.
       andThen (emit (Zero result)) (\<lambda>_.
       andThen (multiRangeCheck result) (\<lambda>_.
       ret result))))"

definition add :: "int \<Rightarrow> Field3 \<Rightarrow> Field3 \<Rightarrow> int \<Rightarrow> Field3 prov" where
  "add p x y f = sumChain p [x, y] [Plus1] f"

definition sub :: "int \<Rightarrow> Field3 \<Rightarrow> Field3 \<Rightarrow> int \<Rightarrow> Field3 prov" where
  "sub p x y f = sumChain p [x, y] [Minus1] f"

section \<open>Multiplication core\<close>

definition weakBound :: "int \<Rightarrow> Field \<Rightarrow> int \<Rightarrow> Field" where
  "weakBound p x f =
     (let f2 = drop_bit L2 f;
          f2Bound = push_bit L 1 - f2 - 1
      in Field_add p x (Field_new p f2Bound))"

text \<open>
  The windows \<open>(start, length)\<close> of the eleven \<^verbatim>\<open>bitSlice\<close> calls on the high carry
  \<open>c1\<close>, in the order of the source (\<open>c1_00\<close> to \<open>c1_90\<close>).
\<close>

definition c1_windows :: "(nat \<times> nat) list" where
  "c1_windows =
     [(0, 12), (12, 12), (24, 12), (36, 12), (48, 12), (60, 12), (72, 12),
      (84, 2), (86, 2), (88, 2), (90, 1)]"

definition c1_slices :: "int \<Rightarrow> int list" where
  "c1_slices c1 = map (\<lambda>(start, len). bitSlice c1 start len) c1_windows"

text \<open>
  The callback of \<^verbatim>\<open>exists(21, ...)\<close> in \<^verbatim>\<open>multiplyNoRangeCheck\<close>: the 21 witness values
  as integers, in the order in which the source returns them.
\<close>

definition multiplyNoRangeCheck_compute ::
  "bigint3 \<Rightarrow> bigint3 \<Rightarrow> int \<Rightarrow> bigint3 \<Rightarrow> int \<Rightarrow> error + int list" where
  "multiplyNoRangeCheck_compute a b f negf f2Bound =
     (case (a, b, negf) of ((a0, a1, a2), (b0, b1, b2), (f_0, f_1, f_2)) \<Rightarrow>
      let ab = collapse (a0, a1, a2) * collapse (b0, b1, b2) in
      case bigint_div ab f of
        Inl e \<Rightarrow> Inl e
      | Inr q \<Rightarrow>
         (let r = ab - q * f;
              (q0, q1, q2) = split q;
              (r0, r1, r2) = split r;
              r01 = collapse2 (r0, r1);
              p0 = a0 * b0 + q0 * f_0;
              p1 = a0 * b1 + a1 * b0 + q0 * f_1 + q1 * f_0;
              p2 = a0 * b2 + a1 * b1 + a2 * b0 + q0 * f_2 + q1 * f_1 + q2 * f_0;
              (p10, p110, p111) = split p1;
              p11 = collapse2 (p110, p111);
              c0 = drop_bit L2 (p0 + push_bit L p10 - r01);
              c1 = drop_bit L (p2 - r2 + p11 + c0);
              q2Bound = q2 + f2Bound
          in Inr ([r01, r2, q0, q1, q2, q2Bound, p10, p110, p111, c0] @ c1_slices c1)))"

definition multiplyNoRangeCheck ::
  "int \<Rightarrow> Field3 \<Rightarrow> Field3 \<Rightarrow> int \<Rightarrow> (Field \<times> Field \<times> Field3 \<times> Field) prov" where
  "multiplyNoRangeCheck p a b f =
     (let f' = push_bit L3 1 - f;
          negf = split f';
          f2 = drop_bit L2 f;
          f2Bound = push_bit L 1 - f2 - 1
      in
      andThen (exists p 21 (multiplyNoRangeCheck_compute (bigint3 a) (bigint3 b) f negf f2Bound))
        (\<lambda>w.
      let r01 = w ! 0; r2 = w ! 1;
          q0 = w ! 2; q1 = w ! 3; q2 = w ! 4;
          q2Bound = w ! 5;
          p10 = w ! 6; p110 = w ! 7; p111 = w ! 8;
          c0 = w ! 9;
          q = (q0, q1, q2)
      in
      andThen (emit (ForeignFieldMul a b (r01, r2) q q2Bound (p10, p110, p111) c0
                 (take 7 (drop 10 w)) (drop 17 w) f2 negf)) (\<lambda>_.
      ret (r01, r2, q, q2Bound))))"

section \<open>Multiply, inverse, divide\<close>

definition multiply :: "int \<Rightarrow> Field3 \<Rightarrow> Field3 \<Rightarrow> int \<Rightarrow> Field3 prov" where
  "multiply p a b f =
     andThen (assert (f < push_bit 259 1) ''Foreign modulus fits in 259 bits'') (\<lambda>_.
     if every3 isConstant a \<and> every3 isConstant b then
       (let ab = ForeignField_toBigint a * ForeignField_toBigint b
        in ret (ForeignField_from p (ff_mod ab f)))
     else
       andThen (multiplyNoRangeCheck p a b f) (\<lambda>(r01, r2, q, q2Bound).
       andThen (multiRangeCheck q) (\<lambda>_.
       andThen (compactMultiRangeCheck p r01 r2) (\<lambda>r.
       let r2Bound = weakBound p r2 f in
       andThen (toVar p 0) (\<lambda>zero.
       andThen (multiRangeCheck (q2Bound, r2Bound, zero)) (\<lambda>_.
       ret r))))))"

definition inverse_ff :: "int \<Rightarrow> Field3 \<Rightarrow> int \<Rightarrow> Field3 prov" where
  "inverse_ff p x f =
     andThen (assert (f < push_bit 259 1) ''Foreign modulus fits in 259 bits'') (\<lambda>_.
     if every3 isConstant x then
       (case modInverse (ForeignField_toBigint x) f of
          None \<Rightarrow> throw (AssertionError ''inverse exists'')
        | Some xInv \<Rightarrow> ret (ForeignField_from p xInv))
     else
       andThen (exists p 3 (Inr
          (case modInverse (ForeignField_toBigint x) f of
             None \<Rightarrow> [0, 0, 0]
           | Some xInv \<Rightarrow> (case split xInv of (v0, v1, v2) \<Rightarrow> [v0, v1, v2])))) (\<lambda>w.
       let xInv = (w ! 0, w ! 1, w ! 2) in
       andThen (multiplyNoRangeCheck p x xInv f) (\<lambda>(r01, r2, q, q2Bound).
       andThen (multiRangeCheck q) (\<lambda>_.
       andThen (multiRangeCheck xInv) (\<lambda>_.
       let xInv2Bound = weakBound p (w ! 2) f in
       andThen (multiRangeCheck (q2Bound, xInv2Bound, Field_new p 0)) (\<lambda>_.
       andThen (assertEquals r01 (Field_new p 1)) (\<lambda>_.
       andThen (assertEquals r2 (Field_new p 0)) (\<lambda>_.
       ret xInv))))))))"

definition divide_ff :: "int \<Rightarrow> Field3 \<Rightarrow> Field3 \<Rightarrow> int \<Rightarrow> bool \<Rightarrow> Field3 prov" where
  "divide_ff p x y f allowZeroOverZero =
     andThen (assert (f < push_bit 259 1) ''Foreign modulus fits in 259 bits'') (\<lambda>_.
     if every3 isConstant x \<and> every3 isConstant y then
       (case modInverse (ForeignField_toBigint y) f of
          None \<Rightarrow> throw (AssertionError ''inverse exists'')
        | Some yInv \<Rightarrow> ret (ForeignField_from p (ff_mod (ForeignField_toBigint x * yInv) f)))
     else
       andThen (exists p 3 (Inr
          (case modInverse (ForeignField_toBigint y) f of
             None \<Rightarrow> [0, 0, 0]
           | Some yInv \<Rightarrow>
               (case split (ff_mod (ForeignField_toBigint x * yInv) f) of
                  (v0, v1, v2) \<Rightarrow> [v0, v1, v2])))) (\<lambda>w.
       let z = (w ! 0, w ! 1, w ! 2) in
       andThen (multiplyNoRangeCheck p z y f) (\<lambda>(r01, r2, q, q2Bound).
       andThen (multiRangeCheck q) (\<lambda>_.
       andThen (multiRangeCheck z) (\<lambda>_.
       let z2Bound = weakBound p (w ! 2) f in
       andThen (multiRangeCheck (q2Bound, z2Bound, Field_new p 0)) (\<lambda>_.
       let x01 = Field_add p (fst x) (Field_mul p (fst (snd x)) (Field_new p (push_bit L 1))) in
       andThen (assertEquals r01 x01) (\<lambda>_.
       andThen (assertEquals r2 (snd (snd x))) (\<lambda>_.
       andThen
         (if \<not> allowZeroOverZero then
            (let y01 = Field_add p (fst y) (Field_mul p (fst (snd y)) (Field_new p (push_bit L 1))) in
             andThen (assertFalse (And (Equals y01 (Field_new p 0))
                                       (Equals (snd (snd y)) (Field_new p 0)))) (\<lambda>_.
             case split f of (f0, f1, f2) \<Rightarrow>
             let f01 = collapse2 (f0, f1) in
             assertFalse (And (Equals y01 (Field_new p f01))
                              (Equals (snd (snd y)) (Field_new p f2)))))
          else ret ()) (\<lambda>_.
       ret z)))))))))"

section \<open>Auxiliary definitions for the statements\<close>

text \<open>
  The error of the failed modulus width assertion of \<^verbatim>\<open>multiply\<close>, \<^verbatim>\<open>inverse\<close> and
  \<^verbatim>\<open>divide\<close>; the recogniser of the rows that \<^verbatim>\<open>assertFalse\<close> emits; and the instance
  at which the statements below are evaluated: the order of the Pallas base field as the
  native order \<open>p\<close>, and the circuit before anything is emitted.
\<close>

definition modulus_error :: error where
  "modulus_error = AssertionError ''Foreign modulus fits in 259 bits''"


definition pallas :: int where
  "pallas = 28948022309329048855892746252171976963363056481941560715954676764349967630337"

definition emptyCircuit :: circuit where
  "emptyCircuit = \<lparr>witnesses = [], constraints = []\<rparr>"

section \<open>Arithmetic reading of the codec\<close>

lemma lMask_mod: "x AND lMask = x mod 2 ^ L"
  by (simp add: lMask_def push_bit_eq_mult flip: mask_eq_exp_minus_1 take_bit_eq_mask take_bit_eq_mod)

lemma l2Mask_mod: "x AND l2Mask = x mod 2 ^ L2"
  by (simp add: l2Mask_def push_bit_eq_mult flip: mask_eq_exp_minus_1 take_bit_eq_mask take_bit_eq_mod)

lemma split_arith:
  "split x = (x mod 2 ^ L, (x div 2 ^ L) mod 2 ^ L, (x div 2 ^ L2) mod 2 ^ L)"
  by (simp add: split_def lMask_mod drop_bit_eq_div)

lemma split2_arith: "split2 x = (x mod 2 ^ L, (x div 2 ^ L) mod 2 ^ L)"
  by (simp add: split2_def lMask_mod drop_bit_eq_div)

lemma collapse_arith: "collapse (x0, x1, x2) = x0 + x1 * 2 ^ L + x2 * 2 ^ L2"
  by (simp add: push_bit_eq_mult)

lemma collapse2_arith: "collapse2 (x0, x1) = x0 + x1 * 2 ^ L"
  by (simp add: push_bit_eq_mult)

declare collapse.simps [simp del] collapse2.simps [simp del]

lemma L2_eq: "(2::int) ^ L2 = 2 ^ L * 2 ^ L"
  by (simp add: L2_def L_def flip: power_add)

lemma L3_eq: "(2::int) ^ L3 = 2 ^ L2 * 2 ^ L"
  by (simp add: L3_def L2_def L_def flip: power_add)

lemma digits2:
  fixes x :: int
  assumes "0 \<le> B"
  shows "x mod (B * B) = x mod B + B * ((x div B) mod B)"
  using assms by (simp add: zmod_zmult2_eq)

lemma collapse_split_mod: "collapse (split x) = x mod 2 ^ L3"
proof -
  let ?B = "(2::int) ^ L"
  have "x mod 2 ^ L3 = x mod (?B * (?B * ?B))"
    by (simp add: L3_eq L2_eq mult.commute)
  also have "\<dots> = x mod ?B + ?B * ((x div ?B) mod (?B * ?B))"
    by (simp add: zmod_zmult2_eq)
  also have "\<dots> = x mod ?B + ?B * ((x div ?B) mod ?B + ?B * (((x div ?B) div ?B) mod ?B))"
    using digits2 [of ?B "x div ?B"] by simp
  finally show ?thesis
    by (simp add: split_arith collapse_arith L2_eq zdiv_zmult2_eq algebra_simps)
qed

lemma collapse_split: "0 \<le> x \<Longrightarrow> x < 2 ^ L3 \<Longrightarrow> collapse (split x) = x"
  by (simp add: collapse_split_mod)

lemma split_collapse:
  assumes "0 \<le> x0" "x0 < 2 ^ L" "0 \<le> x1" "x1 < 2 ^ L" "0 \<le> x2" "x2 < 2 ^ L"
  shows "split (collapse (x0, x1, x2)) = (x0, x1, x2)"
proof -
  let ?B = "(2::int) ^ L"
  let ?v = "x0 + x1 * ?B + x2 * 2 ^ L2"
  have v: "?v = x0 + ?B * (x1 + ?B * x2)"
    by (simp add: L2_eq algebra_simps)
  have m0: "?v mod ?B = x0"
    using assms by (simp add: v)
  have d0: "?v div ?B = x1 + ?B * x2"
    using assms by (simp add: v)
  have m1: "(?v div ?B) mod ?B = x1"
    using assms by (simp add: d0)
  have d1: "?v div 2 ^ L2 = x2"
  proof -
    have "?v div 2 ^ L2 = (?v div ?B) div ?B"
      by (simp add: L2_eq zdiv_zmult2_eq)
    also have "\<dots> = x2"
      using assms by (simp add: d0)
    finally show ?thesis .
  qed
  show ?thesis
    using assms by (simp add: split_arith collapse_arith m0 m1 d1)
qed

section \<open>The circuit monad, the constant paths and the witness computations\<close>

lemma andThen_ret [simp]: "andThen (ret x) k = k x"
  by (rule ext) (simp add: andThen_def ret_def)

lemma andThen_throw [simp]: "andThen (throw e) k = throw e"
  by (rule ext) (simp add: andThen_def throw_def)

lemma assert_True [simp]: "b \<Longrightarrow> assert b msg = ret ()"
  by (simp add: assert_def)

lemma assert_False [simp]: "\<not> b \<Longrightarrow> assert b msg = throw (AssertionError msg)"
  by (simp add: assert_def)

lemma andThen_emit [simp]:
  "andThen (emit c) k s = k () (s\<lparr>constraints := constraints s @ [c]\<rparr>)"
  by (simp add: andThen_def emit_def)

lemma exists_Inr:
  "length vs = n \<Longrightarrow>
   andThen (exists p n (Inr vs)) k s =
     k (map (\<lambda>v. Variable (v mod p)) vs) (s\<lparr>witnesses := witnesses s @ map (\<lambda>v. v mod p) vs\<rparr>)"
  by (simp add: exists_def andThen_def ret_def)

lemma exists_Inl [simp]: "exists p n (Inl e) = throw e"
  by (simp add: exists_def)

lemma pow259: "push_bit 259 (1::int) = 2 ^ 259"
  by (simp add: push_bit_eq_mult)

lemma limb_mod_native: "2 ^ L \<le> p \<Longrightarrow> (x mod 2 ^ L) mod p = x mod (2 ^ L :: int)"
proof -
  assume p: "2 ^ L \<le> p"
  have a: "0 \<le> x mod (2 ^ L :: int)" by simp
  have "x mod (2 ^ L :: int) < 2 ^ L" by simp
  with p have b: "x mod (2 ^ L :: int) < p" by linarith
  from a b show ?thesis by (rule mod_pos_pos_trivial)
qed

lemma bigint3_from: "2 ^ L \<le> p \<Longrightarrow> bigint3 (ForeignField_from p x) = split x"
  by (simp add: ForeignField_from_def Field3_def bigint3_def split_arith Field_new_def limb_mod_native)

lemma toBigint_from_mod: "2 ^ L \<le> p \<Longrightarrow> ForeignField_toBigint (ForeignField_from p x) = x mod 2 ^ L3"
  by (simp add: ForeignField_toBigint_def bigint3_from collapse_split_mod)

lemma toBigint_from:
  "2 ^ L \<le> p \<Longrightarrow> 0 \<le> x \<Longrightarrow> x < 2 ^ L3 \<Longrightarrow> ForeignField_toBigint (ForeignField_from p x) = x"
  by (simp add: toBigint_from_mod)

lemma from_constant [simp]: "every3 isConstant (ForeignField_from p x)"
  by (simp add: ForeignField_from_def Field3_def split_def Field_new_def)

lemma lt259_lt_L3: "f < 2 ^ 259 \<Longrightarrow> (f::int) < 2 ^ L3"
proof -
  assume "f < 2 ^ 259"
  moreover have "(2::int) ^ 259 \<le> 2 ^ L3" unfolding L3_def by (rule power_increasing) simp_all
  ultimately show ?thesis by linarith
qed

lemma div_lt_bound:
  fixes a b c :: int
  assumes "0 < b" "a < c * b"
  shows "a div b < c"
proof (rule ccontr)
  assume "\<not> a div b < c"
  then have "c \<le> a div b" by simp
  then have "c * b \<le> (a div b) * b"
    using assms(1) by (simp add: mult_right_mono)
  moreover have "(a div b) * b + a mod b = a" by simp
  moreover have "0 \<le> a mod b" using assms(1) by simp
  ultimately show False using assms(2) by linarith
qed

lemma singleAdd_compute_length: "length (singleAdd_compute x' y' sign f f') = 5"
  by (simp add: singleAdd_compute_def Let_def split: prod.splits)

lemma singleAdd_compute_overflow:
  "singleAdd_compute x' y' sign f f' ! 3 =
     (if f = 0 then 0
      else if sign = Plus1 \<and> f \<le> collapse x' + sign_val sign * collapse y' then 1
      else if sign = Minus1 \<and> collapse x' + sign_val sign * collapse y' < 0 then - 1
      else 0)"
  by (cases sign) (simp_all add: singleAdd_compute_def Let_def split: prod.splits)

lemma singleAdd_result:
  "singleAdd p x y sign f s =
     (let w = map (\<lambda>v. Variable (v mod p)) (singleAdd_compute (bigint3 x) (bigint3 y) sign f (split f))
      in (Inr ((w ! 0, w ! 1, w ! 2), w ! 3),
          s\<lparr>witnesses := witnesses s @ map (\<lambda>v. v mod p)
                (singleAdd_compute (bigint3 x) (bigint3 y) sign f (split f)),
             constraints := constraints s @ [ForeignFieldAdd x y (w ! 3) (w ! 4) (split f) sign]\<rparr>))"
  by (simp add: singleAdd_def Let_def exists_Inr singleAdd_compute_length ret_def)

lemma toBigInt_Field_add:
  "toBigInt (Field_add p x y) = (toBigInt x + toBigInt y) mod p"
  by (simp add: Field_add_def)


lemma toBigInt_weakBound:
  "toBigInt (weakBound p x f) = (toBigInt x + (2 ^ L - drop_bit L2 f - 1)) mod p"
  by (simp add: weakBound_def Let_def toBigInt_Field_add Field_new_def push_bit_eq_mult mod_simps)






lemma multiplyNoRangeCheck_compute_Inr:
  assumes "f \<noteq> 0"
  shows "\<exists>ws c1. multiplyNoRangeCheck_compute a b f negf f2Bound = Inr ws
            \<and> length ws = 21 \<and> drop 10 ws = c1_slices c1"
proof -
  obtain a0 a1 a2 b0 b1 b2 n0 n1 n2 where abn: "a = (a0, a1, a2)" "b = (b0, b1, b2)" "negf = (n0, n1, n2)"
    by (cases a; cases b; cases negf) auto
  have len: "length (c1_slices c) = 11" for c
    by (simp add: c1_slices_def c1_windows_def)
  show ?thesis
    using assms unfolding abn
    by (auto simp: multiplyNoRangeCheck_compute_def bigint_div_def Let_def len split: prod.splits)
qed

lemma andThen_multiRangeCheck [simp]:
  "andThen (multiRangeCheck x) k s = k () (s\<lparr>constraints := constraints s @ [MultiRangeCheck x]\<rparr>)"
  by (simp add: multiRangeCheck_def)

lemma andThen_assertEquals [simp]:
  "andThen (assertEquals x y) k s =
     k () (s\<lparr>constraints := constraints s @ [AssertEquals x y]\<rparr>)"
  by (simp add: assertEquals_def)

lemma andThen_assertFalse [simp]:
  "andThen (assertFalse b) k s = k () (s\<lparr>constraints := constraints s @ [AssertFalse b]\<rparr>)"
  by (simp add: assertFalse_def)

lemma compactMultiRangeCheck_Inr:
  "\<exists>r s'. compactMultiRangeCheck p xy z s = (Inr r, s')"
  by (simp add: compactMultiRangeCheck_def exists_Inr Let_def ret_def split: prod.splits)

lemma toVar_Inr: "\<exists>v s'. toVar p x s = (Inr v, s')"
  by (simp add: toVar_def exists_Inr ret_def)

lemma multiplyNoRangeCheck_Inr:
  assumes "multiplyNoRangeCheck_compute (bigint3 a) (bigint3 b) f (split (push_bit L3 1 - f))
             (push_bit L 1 - drop_bit L2 f - 1) = Inr ws"
    and "length ws = 21"
  shows "multiplyNoRangeCheck p a b f s =
     (let w = map (\<lambda>v. Variable (v mod p)) ws in
      (Inr (w ! 0, w ! 1, (w ! 2, w ! 3, w ! 4), w ! 5),
       s\<lparr>witnesses := witnesses s @ map (\<lambda>v. v mod p) ws,
         constraints := constraints s @
           [ForeignFieldMul a b (w ! 0, w ! 1) (w ! 2, w ! 3, w ! 4) (w ! 5) (w ! 6, w ! 7, w ! 8)
              (w ! 9) (take 7 (drop 10 w)) (drop 17 w) (drop_bit L2 f)
              (split (push_bit L3 1 - f))]\<rparr>))"
  using assms by (simp add: multiplyNoRangeCheck_def Let_def exists_Inr ret_def)

lemma multiplyNoRangeCheck_zero_divisor:
  "multiplyNoRangeCheck p a b 0 s = (Inl RangeError, s)"
  by (cases "bigint3 a"; cases "bigint3 b"; cases "split (push_bit L3 1 - 0)")
     (simp add: multiplyNoRangeCheck_def Let_def multiplyNoRangeCheck_compute_def bigint_div_def
        throw_def)

lemma andThen_Inr: "m s = (Inr x, s') \<Longrightarrow> andThen m k s = k x s'"
  by (simp add: andThen_def)

lemma andThen_Inl: "m s = (Inl e, s') \<Longrightarrow> andThen m k s = (Inl e, s')"
  by (simp add: andThen_def)

lemma multiplyNoRangeCheck_cases:
  "(\<exists>res s'. multiplyNoRangeCheck p a b f s = (Inr res, s'))
   \<or> multiplyNoRangeCheck p a b f s = (Inl RangeError, s)"
proof (cases "f = 0")
  case True
  then show ?thesis by (simp add: multiplyNoRangeCheck_zero_divisor)
next
  case False
  then obtain ws c1 where
    "multiplyNoRangeCheck_compute (bigint3 a) (bigint3 b) f (split (push_bit L3 1 - f))
             (push_bit L 1 - drop_bit L2 f - 1) = Inr ws" "length ws = 21"
    using multiplyNoRangeCheck_compute_Inr by blast
  then show ?thesis
    using multiplyNoRangeCheck_Inr [of a b f ws p s] by (simp add: Let_def)
qed

lemma multiply_reject:
  "2 ^ 259 \<le> f \<Longrightarrow> multiply p a b f s = (Inl modulus_error, s)"
  by (simp add: multiply_def pow259 throw_def modulus_error_def)

lemma inverse_reject:
  "2 ^ 259 \<le> f \<Longrightarrow> inverse_ff p x f s = (Inl modulus_error, s)"
  by (simp add: inverse_ff_def pow259 throw_def modulus_error_def)

lemma divide_reject:
  "2 ^ 259 \<le> f \<Longrightarrow> divide_ff p x y f z s = (Inl modulus_error, s)"
  by (simp add: divide_ff_def pow259 throw_def modulus_error_def)

lemma multiply_accept:
  assumes "f < 2 ^ 259"
  shows "fst (multiply p a b f s) \<noteq> Inl modulus_error"
proof (cases "every3 isConstant a \<and> every3 isConstant b")
  case True
  with assms show ?thesis
    by (simp add: multiply_def pow259 ret_def Let_def)
next
  case False
  then have nc: "(every3 isConstant a \<and> every3 isConstant b) = False" by simp
  from multiplyNoRangeCheck_cases [of p a b f s] show ?thesis
  proof
    assume "\<exists>res s'. multiplyNoRangeCheck p a b f s = (Inr res, s')"
    then obtain r01 r2 q q2Bound s1 where m: "multiplyNoRangeCheck p a b f s = (Inr (r01, r2, q, q2Bound), s1)"
      by (metis prod_cases4)
    let ?s2 = "s1\<lparr>constraints := constraints s1 @ [MultiRangeCheck q]\<rparr>"
    obtain r s3 where c: "compactMultiRangeCheck p r01 r2 ?s2 = (Inr r, s3)"
      using compactMultiRangeCheck_Inr by blast
    obtain v s4 where t: "toVar p 0 s3 = (Inr v, s4)"
      using toVar_Inr by blast
    have "\<exists>s'. multiply p a b f s = (Inr r, s')"
      using assms
      by (simp add: multiply_def pow259 Let_def ret_def nc
            andThen_Inr [where m = "multiplyNoRangeCheck p a b f", OF m]
            andThen_Inr [where m = "compactMultiRangeCheck p r01 r2", OF c]
            andThen_Inr [where m = "toVar p 0", OF t])
    then show ?thesis by auto
  next
    assume "multiplyNoRangeCheck p a b f s = (Inl RangeError, s)"
    then have "multiply p a b f s = (Inl RangeError, s)"
      using assms
      by (simp add: multiply_def pow259 nc andThen_Inl [where m = "multiplyNoRangeCheck p a b f"])
    then show ?thesis by (simp add: modulus_error_def)
  qed
qed

lemma multiplyNoRangeCheck_total:
  assumes "f \<noteq> 0"
  shows "\<exists>r01 r2 q q2Bound s'. multiplyNoRangeCheck p a b f s = (Inr (r01, r2, q, q2Bound), s')"
proof -
  obtain ws c1 where
    "multiplyNoRangeCheck_compute (bigint3 a) (bigint3 b) f (split (push_bit L3 1 - f))
             (push_bit L 1 - drop_bit L2 f - 1) = Inr ws" "length ws = 21"
    using assms multiplyNoRangeCheck_compute_Inr by blast
  then show ?thesis
    using multiplyNoRangeCheck_Inr [of a b f ws p s] by (simp add: Let_def)
qed

lemma collapse_zero: "collapse (0, 0, 0) = 0"
  by (simp add: collapse_arith)

lemma split_zero: "split 0 = (0, 0, 0)"
  by (simp add: split_arith)

lemma multiplyNoRangeCheck_compute_zero:
  assumes "f \<noteq> 0"
  shows "\<exists>ws. multiplyNoRangeCheck_compute a (0, 0, 0) f negf f2Bound = Inr ws
            \<and> length ws = 21 \<and> ws ! 0 = 0 \<and> ws ! 1 = 0"
proof -
  obtain a0 a1 a2 n0 n1 n2 where abn: "a = (a0, a1, a2)" "negf = (n0, n1, n2)"
    by (cases a; cases negf) auto
  have len: "length (c1_slices c) = 11" for c
    by (simp add: c1_slices_def c1_windows_def)
  show ?thesis
    using assms unfolding abn
    by (simp add: multiplyNoRangeCheck_compute_def bigint_div_def Let_def len collapse_zero
          split_zero collapse2_arith split: prod.splits)
qed

lemma multiplyNoRangeCheck_zero_operand:
  assumes "f \<noteq> 0"
    and "multiplyNoRangeCheck p a (Variable 0, Variable 0, Variable 0) f s
           = (Inr (r01, r2, q, q2Bound), s')"
  shows "r01 = Variable 0 \<and> r2 = Variable 0"
proof -
  have b: "bigint3 (Variable 0, Variable 0, Variable 0) = (0, 0, 0)"
    by (simp add: bigint3_def)
  obtain ws where ws:
    "multiplyNoRangeCheck_compute (bigint3 a) (0, 0, 0) f (split (push_bit L3 1 - f))
             (push_bit L 1 - drop_bit L2 f - 1) = Inr ws" "length ws = 21" "ws ! 0 = 0" "ws ! 1 = 0"
    using assms(1) multiplyNoRangeCheck_compute_zero by blast
  show ?thesis
    using multiplyNoRangeCheck_Inr [of a "(Variable 0, Variable 0, Variable 0)" f ws p s] ws assms(2)
    by (simp add: b Let_def)
qed

lemma inverse_provable:
  assumes "\<not> every3 isConstant x" "f < 2 ^ 259"
    and w: "(case modInverse (ForeignField_toBigint x) f of
               None \<Rightarrow> [0, 0, 0]
             | Some xInv \<Rightarrow> (case split xInv of (v0, v1, v2) \<Rightarrow> [v0, v1, v2])) = [v0, v1, v2]"
    and m: "multiplyNoRangeCheck p x (Variable (v0 mod p), Variable (v1 mod p), Variable (v2 mod p)) f
              (s\<lparr>witnesses := witnesses s @ [v0 mod p, v1 mod p, v2 mod p]\<rparr>)
            = (Inr (r01, r2, q, q2Bound), s2)"
  shows "inverse_ff p x f s =
     (Inr (Variable (v0 mod p), Variable (v1 mod p), Variable (v2 mod p)),
      s2\<lparr>constraints := constraints s2 @
         [MultiRangeCheck q,
          MultiRangeCheck (Variable (v0 mod p), Variable (v1 mod p), Variable (v2 mod p)),
          MultiRangeCheck (q2Bound, weakBound p (Variable (v2 mod p)) f, Field_new p 0),
          AssertEquals r01 (Field_new p 1),
          AssertEquals r2 (Field_new p 0)]\<rparr>)"
  using assms(1,2)
  by (simp add: inverse_ff_def pow259 w exists_Inr Let_def ret_def
        andThen_Inr [where m = "multiplyNoRangeCheck p x
            (Variable (v0 mod p), Variable (v1 mod p), Variable (v2 mod p)) f", OF m])

lemma modInverse_Some:
  assumes "0 < f" "modInverse x f = Some v"
  shows "0 \<le> v \<and> v < f \<and> (x * v) mod f = 1 mod f"
proof -
  from assms(2) have g: "gcd x f = 1" and v: "v = fst (bezw (nat (x mod f)) (nat f)) mod f"
    by (auto simp: modInverse_def split: if_splits)
  let ?u = "fst (bezw (nat (x mod f)) (nat f))"
  let ?w = "snd (bezw (nat (x mod f)) (nat f))"
  have xm: "int (nat (x mod f)) = x mod f" using assms(1) by simp
  have fm: "int (nat f) = f" using assms(1) by simp
  have "int (nat (x mod f)) * ?u + int (nat f) * ?w = int (gcd (nat (x mod f)) (nat f))"
    using bezw_aux [of "nat (x mod f)" "nat f"] by (simp add: mult.commute)
  moreover have "int (gcd (nat (x mod f)) (nat f)) = gcd (x mod f) f"
    using assms(1) by (simp add: gcd_int_def)
  moreover have "gcd (x mod f) f = gcd x f"
    using gcd_red_int [of x f] by (simp add: gcd.commute)
  ultimately have bz: "(x mod f) * ?u + f * ?w = 1"
    using g xm fm by simp
  have "((x mod f) * ?u + f * ?w) mod f = (x * ?u) mod f"
    by (simp add: mod_mult_left_eq)
  with bz have "(x * ?u) mod f = 1 mod f" by simp
  then have "(x * (?u mod f)) mod f = 1 mod f"
    by (simp add: mod_mult_right_eq)
  then show ?thesis
    using assms(1) v by simp
qed

lemma inverse_witness_list:
  "\<exists>v0 v1 v2.
     (case modInverse X f of None \<Rightarrow> [0, 0, 0]
      | Some xInv \<Rightarrow> (case split xInv of (v0, v1, v2) \<Rightarrow> [v0, v1, v2])) = [v0, v1, v2]
     \<and> (v0, v1, v2) = (case modInverse X f of None \<Rightarrow> (0, 0, 0) | Some xInv \<Rightarrow> split xInv)"
  by (cases "modInverse X f") (auto split: prod.splits)

lemma inverse_provable_fail:
  assumes "\<not> every3 isConstant x" "f < 2 ^ 259"
    and w: "(case modInverse (ForeignField_toBigint x) f of
               None \<Rightarrow> [0, 0, 0]
             | Some xInv \<Rightarrow> (case split xInv of (v0, v1, v2) \<Rightarrow> [v0, v1, v2])) = [v0, v1, v2]"
    and m: "multiplyNoRangeCheck p x (Variable (v0 mod p), Variable (v1 mod p), Variable (v2 mod p)) f
              (s\<lparr>witnesses := witnesses s @ [v0 mod p, v1 mod p, v2 mod p]\<rparr>)
            = (Inl e, s2)"
  shows "inverse_ff p x f s = (Inl e, s2)"
  using assms(1,2)
  by (simp add: inverse_ff_def pow259 w exists_Inr Let_def ret_def
        andThen_Inl [where m = "multiplyNoRangeCheck p x
            (Variable (v0 mod p), Variable (v1 mod p), Variable (v2 mod p)) f", OF m])

lemma inverse_accept:
  assumes "f < 2 ^ 259"
  shows "fst (inverse_ff p x f s) \<noteq> Inl modulus_error"
proof (cases "every3 isConstant x")
  case True
  with assms show ?thesis
    by (simp add: inverse_ff_def pow259 ret_def throw_def modulus_error_def split: option.splits)
next
  case False
  obtain v0 v1 v2 where w: "(case modInverse (ForeignField_toBigint x) f of
               None \<Rightarrow> [0, 0, 0]
             | Some xInv \<Rightarrow> (case split xInv of (v0, v1, v2) \<Rightarrow> [v0, v1, v2])) = [v0, v1, v2]"
    using inverse_witness_list by blast
  let ?xInv = "(Variable (v0 mod p), Variable (v1 mod p), Variable (v2 mod p))"
  let ?s1 = "s\<lparr>witnesses := witnesses s @ [v0 mod p, v1 mod p, v2 mod p]\<rparr>"
  from multiplyNoRangeCheck_cases [of p x ?xInv f ?s1] show ?thesis
  proof
    assume "\<exists>res s'. multiplyNoRangeCheck p x ?xInv f ?s1 = (Inr res, s')"
    then obtain r01 r2 q q2Bound s2 where
      "multiplyNoRangeCheck p x ?xInv f ?s1 = (Inr (r01, r2, q, q2Bound), s2)"
      by (metis prod_cases4)
    from inverse_provable [OF False assms w this] show ?thesis by simp
  next
    assume "multiplyNoRangeCheck p x ?xInv f ?s1 = (Inl RangeError, ?s1)"
    from inverse_provable_fail [OF False assms w this] show ?thesis by (simp add: modulus_error_def)
  qed
qed

lemma andThen_assoc: "andThen (andThen m g) k = andThen m (\<lambda>x. andThen (g x) k)"
  by (rule ext) (simp add: andThen_def split: prod.splits sum.splits)

lemma divide_witness_list:
  "\<exists>v0 v1 v2.
     (case modInverse Y f of None \<Rightarrow> [0, 0, 0]
      | Some yInv \<Rightarrow> (case split (ff_mod (X * yInv) f) of (v0, v1, v2) \<Rightarrow> [v0, v1, v2]))
       = [v0, v1, v2]"
  by (cases "modInverse Y f") (auto split: prod.splits)

lemma divide_provable:
  assumes nc: "(every3 isConstant x \<and> every3 isConstant y) = False" and "f < 2 ^ 259"
    and w: "(case modInverse (ForeignField_toBigint y) f of
               None \<Rightarrow> [0, 0, 0]
             | Some yInv \<Rightarrow>
                 (case split (ff_mod (ForeignField_toBigint x * yInv) f) of
                    (v0, v1, v2) \<Rightarrow> [v0, v1, v2])) = [v0, v1, v2]"
    and m: "multiplyNoRangeCheck p (Variable (v0 mod p), Variable (v1 mod p), Variable (v2 mod p)) y f
              (s\<lparr>witnesses := witnesses s @ [v0 mod p, v1 mod p, v2 mod p]\<rparr>)
            = (Inr (r01, r2, q, q2Bound), s2)"
  shows "divide_ff p x y f allowZeroOverZero s =
     (Inr (Variable (v0 mod p), Variable (v1 mod p), Variable (v2 mod p)),
      s2\<lparr>constraints := constraints s2 @
         [MultiRangeCheck q,
          MultiRangeCheck (Variable (v0 mod p), Variable (v1 mod p), Variable (v2 mod p)),
          MultiRangeCheck (q2Bound, weakBound p (Variable (v2 mod p)) f, Field_new p 0),
          AssertEquals r01
            (Field_add p (fst x) (Field_mul p (fst (snd x)) (Field_new p (push_bit L 1)))),
          AssertEquals r2 (snd (snd x))] @
         (if allowZeroOverZero then []
          else [AssertFalse (And
                  (Equals (Field_add p (fst y) (Field_mul p (fst (snd y)) (Field_new p (push_bit L 1))))
                          (Field_new p 0))
                  (Equals (snd (snd y)) (Field_new p 0))),
                AssertFalse (And
                  (Equals (Field_add p (fst y) (Field_mul p (fst (snd y)) (Field_new p (push_bit L 1))))
                          (Field_new p (collapse2 (lo2 (split f)))))
                  (Equals (snd (snd y)) (Field_new p (snd (snd (split f))))))])\<rparr>)"
  using assms(2)
  by (cases "split f")
     (simp add: divide_ff_def pow259 w nc exists_Inr Let_def ret_def andThen_assoc
        andThen_Inr [where m = "multiplyNoRangeCheck p
            (Variable (v0 mod p), Variable (v1 mod p), Variable (v2 mod p)) y f", OF m])

lemma divide_provable_fail:
  assumes nc: "(every3 isConstant x \<and> every3 isConstant y) = False" and "f < 2 ^ 259"
    and w: "(case modInverse (ForeignField_toBigint y) f of
               None \<Rightarrow> [0, 0, 0]
             | Some yInv \<Rightarrow>
                 (case split (ff_mod (ForeignField_toBigint x * yInv) f) of
                    (v0, v1, v2) \<Rightarrow> [v0, v1, v2])) = [v0, v1, v2]"
    and m: "multiplyNoRangeCheck p (Variable (v0 mod p), Variable (v1 mod p), Variable (v2 mod p)) y f
              (s\<lparr>witnesses := witnesses s @ [v0 mod p, v1 mod p, v2 mod p]\<rparr>)
            = (Inl e, s2)"
  shows "divide_ff p x y f allowZeroOverZero s = (Inl e, s2)"
  using assms(2)
  by (simp add: divide_ff_def pow259 w nc exists_Inr Let_def ret_def
        andThen_Inl [where m = "multiplyNoRangeCheck p
            (Variable (v0 mod p), Variable (v1 mod p), Variable (v2 mod p)) y f", OF m])

lemma divide_accept:
  assumes "f < 2 ^ 259"
  shows "fst (divide_ff p x y f z s) \<noteq> Inl modulus_error"
proof (cases "every3 isConstant x \<and> every3 isConstant y")
  case True
  with assms show ?thesis
    by (simp add: divide_ff_def pow259 ret_def throw_def modulus_error_def split: option.splits)
next
  case False
  then have nc: "(every3 isConstant x \<and> every3 isConstant y) = False" by simp
  obtain v0 v1 v2 where w: "(case modInverse (ForeignField_toBigint y) f of
               None \<Rightarrow> [0, 0, 0]
             | Some yInv \<Rightarrow>
                 (case split (ff_mod (ForeignField_toBigint x * yInv) f) of
                    (v0, v1, v2) \<Rightarrow> [v0, v1, v2])) = [v0, v1, v2]"
    using divide_witness_list by blast
  let ?z = "(Variable (v0 mod p), Variable (v1 mod p), Variable (v2 mod p))"
  let ?s1 = "s\<lparr>witnesses := witnesses s @ [v0 mod p, v1 mod p, v2 mod p]\<rparr>"
  from multiplyNoRangeCheck_cases [of p ?z y f ?s1] show ?thesis
  proof
    assume "\<exists>res s'. multiplyNoRangeCheck p ?z y f ?s1 = (Inr res, s')"
    then obtain r01 r2 q q2Bound s2 where
      "multiplyNoRangeCheck p ?z y f ?s1 = (Inr (r01, r2, q, q2Bound), s2)"
      by (metis prod_cases4)
    from divide_provable [OF nc assms w this] show ?thesis by simp
  next
    assume "multiplyNoRangeCheck p ?z y f ?s1 = (Inl RangeError, ?s1)"
    from divide_provable_fail [OF nc assms w this] show ?thesis by (simp add: modulus_error_def)
  qed
qed

lemma add_limbs:
  fixes B :: int
  assumes B: "0 < B" and v0: "0 \<le> v" and v1: "v < B * B * B" and v: "v = r01 + B * B * t"
  shows "(r01 mod (B * B)) mod B = v mod B"
    and "((r01 mod (B * B)) div B) mod B = (v div B) mod B"
    and "t + r01 div (B * B) = (v div (B * B)) mod B"
proof -
  have BB: "0 < B * B" using B by simp
  have m: "v mod (B * B) = r01 mod (B * B)" by (simp add: v)
  have "(r01 + (B * B) * t) div (B * B) = t + r01 div (B * B)"
    by (rule div_mult_self2) (use B in simp)
  then have d: "v div (B * B) = t + r01 div (B * B)"
    by (simp only: v)
  have "(v mod (B * B)) mod B = v mod B"
    by (simp add: mod_mod_cancel)
  then show "(r01 mod (B * B)) mod B = v mod B" by (simp add: m)
  have "v mod (B * B) = B * (v div B mod B) + v mod B"
    using B by (simp add: zmod_zmult2_eq)
  then have "(v mod (B * B)) div B = (v div B) mod B"
    using B by simp
  then show "((r01 mod (B * B)) div B) mod B = (v div B) mod B" by (simp add: m)
  have "0 \<le> v div (B * B)" using v0 BB by (simp add: pos_imp_zdiv_nonneg_iff)
  moreover have "v div (B * B) < B"
    using BB v1 by (intro div_lt_bound) (simp_all add: mult.assoc)
  ultimately have "(v div (B * B)) mod B = v div (B * B)" by (simp add: mod_pos_pos_trivial)
  then show "t + r01 div (B * B) = (v div (B * B)) mod B" by (simp add: d)
qed

lemma collapse2_lo2_split: "collapse2 (lo2 (split f)) = f mod 2 ^ L2"
  by (simp add: split_arith collapse2_arith L2_eq zmod_zmult2_eq algebra_simps)

lemma hi_split:
  assumes "0 \<le> f" "f < 2 ^ L3"
  shows "snd (snd (split f)) = f div 2 ^ L2"
proof -
  have "0 \<le> f div 2 ^ L2" using assms(1) by (simp add: pos_imp_zdiv_nonneg_iff)
  moreover have "f div 2 ^ L2 < 2 ^ L"
    using assms(2) by (intro div_lt_bound) (simp_all add: L3_eq mult.commute)
  ultimately show ?thesis by (simp add: split_arith mod_pos_pos_trivial)
qed

lemma singleAdd_compute_shape:
  "singleAdd_compute x' y' sign f f' =
     (let ov = singleAdd_compute x' y' sign f f' ! 3;
          r01 = collapse2 (lo2 x') + sign_val sign * collapse2 (lo2 y') - ov * collapse2 (lo2 f')
      in [(r01 mod 2 ^ L2) mod 2 ^ L, ((r01 mod 2 ^ L2) div 2 ^ L) mod 2 ^ L,
          snd (snd x') + sign_val sign * snd (snd y') - ov * snd (snd f') + r01 div 2 ^ L2,
          ov, r01 div 2 ^ L2])"
  by (cases sign)
     (simp_all add: singleAdd_compute_def Let_def split2_arith l2Mask_mod drop_bit_eq_div)

lemma singleAdd_compute_limbs:
  assumes f: "0 \<le> f" "f < 2 ^ L3"
    and ov: "ov = singleAdd_compute x' y' sign f (split f) ! 3"
    and v: "v = collapse x' + sign_val sign * collapse y' - ov * f"
    and v0: "0 \<le> v" and v1: "v < 2 ^ L3"
  shows "singleAdd_compute x' y' sign f (split f) ! 0 = fst (split v)
       \<and> singleAdd_compute x' y' sign f (split f) ! 1 = fst (snd (split v))
       \<and> singleAdd_compute x' y' sign f (split f) ! 2 = snd (snd (split v))"
proof -
  let ?B = "(2::int) ^ L"
  let ?s = "sign_val sign"
  define r01 where "r01 = collapse2 (lo2 x') + ?s * collapse2 (lo2 y') - ov * collapse2 (lo2 (split f))"
  define t where "t = snd (snd x') + ?s * snd (snd y') - ov * snd (snd (split f))"
  have "ov * f = ov * (f mod 2 ^ L2 + 2 ^ L2 * (f div 2 ^ L2))" by simp
  also have "\<dots> = ov * (f mod 2 ^ L2) + ov * (2 ^ L2 * (f div 2 ^ L2))"
    by (rule distrib_left)
  finally have fo: "ov * f = ov * (f mod 2 ^ L2) + ov * (2 ^ L2 * (f div 2 ^ L2))" .
  have "v = r01 + 2 ^ L2 * t"
  proof -
    obtain x0 x1 x2 y0 y1 y2 where xy: "x' = (x0, x1, x2)" "y' = (y0, y1, y2)"
      by (cases x'; cases y') auto
    show ?thesis
      unfolding r01_def t_def v xy collapse_arith collapse2_lo2_split hi_split [OF f] fo
      by (simp add: collapse2_arith algebra_simps)
  qed
  then have veq: "v = r01 + ?B * ?B * t" by (simp add: L2_eq)
  have v1': "v < ?B * ?B * ?B" using v1 by (simp add: L3_eq L2_eq)
  have B: "0 < ?B" by simp
  note al = add_limbs [OF B v0 v1' veq]
  have w: "singleAdd_compute x' y' sign f (split f) =
      [(r01 mod 2 ^ L2) mod ?B, ((r01 mod 2 ^ L2) div ?B) mod ?B, t + r01 div 2 ^ L2,
       ov, r01 div 2 ^ L2]"
    by (subst singleAdd_compute_shape) (simp add: Let_def ov [symmetric] r01_def t_def)
  show ?thesis
    unfolding w using al
    by (simp add: split_arith L2_eq)
qed

lemma split_limb_native:
  assumes "2 ^ L \<le> p"
  shows "fst (split v) mod p = fst (split v)"
    and "fst (snd (split v)) mod p = fst (snd (split v))"
    and "snd (snd (split v)) mod p = snd (snd (split v))"
  using assms by (simp_all add: split_arith limb_mod_native)

lemma mod_add_once:
  fixes a f :: int
  assumes "0 \<le> a" "a < 2 * f"
  shows "(if f \<le> a then a - f else a) = a mod f"
proof (cases "f \<le> a")
  case True
  then have "0 \<le> a - f" "a - f < f" using assms by auto
  then have e1: "(a - f) mod f = a - f" by (rule mod_pos_pos_trivial)
  have e2: "(a - f + f) mod f = (a - f) mod f" by (rule mod_add_self2)
  have e3: "a - f + f = a" by simp
  have "a mod f = a - f" using e2 e1 unfolding e3 by (rule trans)
  then show ?thesis using True by simp
next
  case False
  then show ?thesis using assms by (simp add: mod_pos_pos_trivial)
qed

lemma mod_sub_once:
  fixes a f :: int
  assumes "- f \<le> a" "a < f"
  shows "(if a < 0 then a + f else a) = a mod f"
proof (cases "a < 0")
  case True
  then have "0 \<le> a + f" "a + f < f" using assms by auto
  then have e1: "(a + f) mod f = a + f" by (rule mod_pos_pos_trivial)
  have e2: "(a + f) mod f = a mod f" by (rule mod_add_self2)
  have "a mod f = a + f" using e2 e1 by (rule trans [OF sym])
  then show ?thesis using True by simp
next
  case False
  then show ?thesis using assms by (simp add: mod_pos_pos_trivial)
qed

lemma singleAdd_mod:
  assumes X: "0 \<le> ForeignField_toBigint x" "ForeignField_toBigint x < f"
    and Y: "0 \<le> ForeignField_toBigint y" "ForeignField_toBigint y < f"
    and f: "f < 2 ^ L3" and p: "2 ^ L \<le> p"
  shows "\<exists>ov s'. singleAdd p x y sign f s =
           (Inr (map3 Variable
                   (split ((ForeignField_toBigint x + sign_val sign * ForeignField_toBigint y) mod f)),
                 ov), s')"
proof -
  let ?X = "ForeignField_toBigint x" and ?Y = "ForeignField_toBigint y"
  let ?w = "singleAdd_compute (bigint3 x) (bigint3 y) sign f (split f)"
  let ?v = "(?X + sign_val sign * ?Y) mod f"
  have f0: "0 < f" using X by linarith
  have ovd: "?w ! 3 = (if sign = Plus1 \<and> f \<le> ?X + ?Y then 1
                       else if sign = Minus1 \<and> ?X - ?Y < 0 then - 1 else 0)"
    using f0 by (cases sign) (simp_all add: singleAdd_compute_overflow ForeignField_toBigint_def)
  have v: "?v = collapse (bigint3 x) + sign_val sign * collapse (bigint3 y) - ?w ! 3 * f"
  proof (cases sign)
    case Plus1
    have "(if f \<le> ?X + ?Y then ?X + ?Y - f else ?X + ?Y) = (?X + ?Y) mod f"
      using X Y by (intro mod_add_once) auto
    then show ?thesis
      unfolding ovd using Plus1 by (simp flip: ForeignField_toBigint_def split: if_splits)
  next
    case Minus1
    have "(if ?X - ?Y < 0 then ?X - ?Y + f else ?X - ?Y) = (?X - ?Y) mod f"
      using X Y by (intro mod_sub_once) auto
    then show ?thesis
      unfolding ovd using Minus1 by (simp flip: ForeignField_toBigint_def split: if_splits)
  qed
  have v0: "0 \<le> ?v" using f0 by simp
  have "?v < f" using f0 by simp
  with f have v1: "?v < 2 ^ L3" by linarith
  have f0': "0 \<le> f" using f0 by simp
  note lim = singleAdd_compute_limbs [OF f0' f refl v v0 v1]
  obtain a b c where sp: "split ?v = (a, b, c)" by (cases "split ?v") auto
  have nat: "a mod p = a" "b mod p = b" "c mod p = c"
    using split_limb_native [OF p, of ?v] by (simp_all add: sp)
  show ?thesis
    using lim by (simp add: singleAdd_result Let_def singleAdd_compute_length sp nat)
qed

lemma bigint3_map3_Variable [simp]: "bigint3 (map3 Variable t) = t"
  by (cases t) (simp add: bigint3_def)

lemma toBigint_Variable_split:
  "0 \<le> v \<Longrightarrow> v < 2 ^ L3 \<Longrightarrow> ForeignField_toBigint (map3 Variable (split v)) = v"
  by (simp add: ForeignField_toBigint_def collapse_split)

lemma sumChain_provable3:
  assumes nc: "(every3 isConstant a \<and> every3 isConstant b \<and> every3 isConstant c) = False"
    and A: "0 \<le> ForeignField_toBigint a" "ForeignField_toBigint a < f"
    and B: "0 \<le> ForeignField_toBigint b" "ForeignField_toBigint b < f"
    and C: "0 \<le> ForeignField_toBigint c" "ForeignField_toBigint c < f"
    and f: "f < 2 ^ L3" and p: "2 ^ L \<le> p"
  shows "\<exists>s'. sumChain p [a, b, c] [Plus1, Minus1] f s =
           (Inr (map3 Variable (split ((ForeignField_toBigint a + ForeignField_toBigint b
                    - ForeignField_toBigint c) mod f))), s')"
proof -
  let ?A = "ForeignField_toBigint a" and ?B = "ForeignField_toBigint b"
    and ?C = "ForeignField_toBigint c"
  have f0: "0 < f" using A by linarith
  let ?v1 = "(?A + ?B) mod f"
  let ?r1 = "map3 Variable (split ?v1)"
  obtain ov1 s1 where s1: "singleAdd p a b Plus1 f s = (Inr (?r1, ov1), s1)"
    using singleAdd_mod [OF A B f p, of Plus1 s] by auto
  have v1: "0 \<le> ?v1" "?v1 < f" using f0 by simp_all
  then have v1': "?v1 < 2 ^ L3" using f by linarith
  have r1: "ForeignField_toBigint ?r1 = ?v1"
    using v1(1) v1' by (rule toBigint_Variable_split)
  have R: "0 \<le> ForeignField_toBigint ?r1" "ForeignField_toBigint ?r1 < f"
    using v1 by (simp_all add: r1)
  obtain ov2 s2 where s2: "singleAdd p ?r1 c Minus1 f s1 =
      (Inr (map3 Variable (split ((ForeignField_toBigint ?r1 + sign_val Minus1 * ?C) mod f)), ov2), s2)"
    using singleAdd_mod [OF R C f p, of Minus1 s1] by auto
  have "(ForeignField_toBigint ?r1 + sign_val Minus1 * ?C) mod f = (?A + ?B - ?C) mod f"
    by (simp add: r1 mod_simps)
  with s2 have s2': "singleAdd p ?r1 c Minus1 f s1 =
      (Inr (map3 Variable (split ((?A + ?B - ?C) mod f)), ov2), s2)" by simp
  show ?thesis
    by (simp add: sumChain_def nc ret_def andThen_assoc
          andThen_Inr [where m = "singleAdd p a b Plus1 f", OF s1]
          andThen_Inr [where m = "singleAdd p ?r1 c Minus1 f", OF s2'])
qed

lemma foldl_signed_sum:
  "length ss = length ys \<Longrightarrow>
   foldl (\<lambda>sum (s, xi). sum + sign_val s * xi) a (zip ss ys)
     = a + (\<Sum>i < length ss. sign_val (ss ! i) * ys ! i)"
proof (induction ss arbitrary: a ys)
  case Nil
  then show ?case by simp
next
  case (Cons s ss)
  then obtain y ys' where ys: "ys = y # ys'" by (cases ys) auto
  with Cons.prems have len: "length ss = length ys'" by simp
  let ?F = "\<lambda>sum (s, xi). sum + sign_val s * xi"
  have "foldl ?F a (zip (s # ss) ys) = foldl ?F (a + sign_val s * y) (zip ss ys')"
    by (simp add: ys)
  also have "\<dots> = a + sign_val s * y + (\<Sum>i < length ss. sign_val (ss ! i) * ys' ! i)"
    by (rule Cons.IH [OF len])
  also have "\<dots> = a + (\<Sum>i < length (s # ss). sign_val ((s # ss) ! i) * ys ! i)"
    by (simp add: ys sum.lessThan_Suc_shift del: sum.lessThan_Suc)
  finally show ?case .
qed

lemma sumChain_constant:
  assumes "list_all (every3 isConstant) x" "length x = length sign + 1"
  shows "sumChain p x sign f s =
     (Inr (ForeignField_from p (ff_mod
         (ForeignField_toBigint (x ! 0)
           + (\<Sum>i < length sign. sign_val (sign ! i) * ForeignField_toBigint (x ! (i + 1)))) f)), s)"
proof -
  from assms(2) obtain x0 xs where x: "x = x0 # xs" and len: "length sign = length xs"
    by (cases x) auto
  have "length sign = length (map ForeignField_toBigint xs)" using len by simp
  note fs = foldl_signed_sum [OF this]
  show ?thesis
    using assms(1) len by (simp add: sumChain_def x ret_def Let_def fs)
qed



lemma pallas_L: "2 ^ L \<le> pallas" "2 ^ L < pallas" "2 ^ L2 \<le> pallas" "2 ^ (L + 1) \<le> pallas"
  by (simp_all add: pallas_def L_def L2_def)

lemma sumChain_three_operands_aux:
  assumes allc: "every3 isConstant a" "every3 isConstant b" "every3 isConstant c"
    and vars: "\<not> (every3 isConstant a' \<and> every3 isConstant b' \<and> every3 isConstant c')"
    and same: "bigint3 a' = bigint3 a" "bigint3 b' = bigint3 b" "bigint3 c' = bigint3 c"
    and A: "0 \<le> ForeignField_toBigint a" "ForeignField_toBigint a < f"
    and B: "0 \<le> ForeignField_toBigint b" "ForeignField_toBigint b < f"
    and C: "0 \<le> ForeignField_toBigint c" "ForeignField_toBigint c < f"
    and f: "f < 2 ^ (3 * L)" and p: "2 ^ L \<le> p"
  shows "\<exists>rc rv s'.
       sumChain p [a, b, c] [Plus1, Minus1] f s = (Inr rc, s)
     \<and> sumChain p [a', b', c'] [Plus1, Minus1] f s = (Inr rv, s')
     \<and> rc = ForeignField_from p
              (ff_mod (ForeignField_toBigint a + ForeignField_toBigint b - ForeignField_toBigint c) f)
     \<and> ForeignField_toBigint rc
         = (ForeignField_toBigint a + ForeignField_toBigint b - ForeignField_toBigint c) mod f
     \<and> ForeignField_toBigint rv
         = (ForeignField_toBigint a + ForeignField_toBigint b - ForeignField_toBigint c) mod f
     \<and> bigint3 rv = bigint3 rc"
proof -
  let ?A = "ForeignField_toBigint a" and ?B = "ForeignField_toBigint b"
    and ?C = "ForeignField_toBigint c"
  let ?v = "(?A + ?B - ?C) mod f"
  have f3: "f < 2 ^ L3" using f by (simp add: L_def L3_def)
  have f0: "0 < f" using A by linarith
  have v0: "0 \<le> ?v" using f0 by simp
  have "?v < f" using f0 by simp
  with f3 have v1: "?v < 2 ^ L3" by linarith
  have same': "ForeignField_toBigint a' = ?A" "ForeignField_toBigint b' = ?B"
    "ForeignField_toBigint c' = ?C"
    using same by (simp_all add: ForeignField_toBigint_def)
  have nc: "(every3 isConstant a' \<and> every3 isConstant b' \<and> every3 isConstant c') = False"
    using vars by simp
  obtain s' where var: "sumChain p [a', b', c'] [Plus1, Minus1] f s
      = (Inr (map3 Variable (split ?v)), s')"
    using sumChain_provable3 [OF nc, of f p s] A B C f3 p unfolding same' by blast
  have con: "sumChain p [a, b, c] [Plus1, Minus1] f s = (Inr (ForeignField_from p (ff_mod (?A + ?B - ?C) f)), s)"
    using allc by (simp add: sumChain_def ret_def Let_def algebra_simps)
  show ?thesis
  proof (intro exI conjI)
    show "sumChain p [a, b, c] [Plus1, Minus1] f s = (Inr (ForeignField_from p (ff_mod (?A + ?B - ?C) f)), s)"
      by (rule con)
    show "sumChain p [a', b', c'] [Plus1, Minus1] f s = (Inr (map3 Variable (split ?v)), s')"
      by (rule var)
    show "ForeignField_from p (ff_mod (?A + ?B - ?C) f) = ForeignField_from p (ff_mod (?A + ?B - ?C) f)"
      by (rule refl)
    show "ForeignField_toBigint (ForeignField_from p (ff_mod (?A + ?B - ?C) f)) = ?v"
      using toBigint_from [OF p v0 v1] by (simp add: ff_mod_def)
    show "ForeignField_toBigint (map3 Variable (split ?v)) = ?v"
      using v0 v1 by (rule toBigint_Variable_split)
    show "bigint3 (map3 Variable (split ?v)) = bigint3 (ForeignField_from p (ff_mod (?A + ?B - ?C) f))"
      by (simp add: bigint3_from [OF p] ff_mod_def)
  qed
qed

section \<open>Claims\<close>

text \<open>
  C1. On the constant path, for unsigned integers \<open>x, y < f\<close> and a modulus
  \<open>0 < f < 2^259\<close>, \<open>mul(from(x), from(y), f)\<close> returns the limb split of
  \<open>(x * y) mod f\<close> and leaves the circuit untouched, and \<open>toBigint\<close> of the result is
  \<open>(x * y) mod f\<close>. The limbs are native field values, so the native order \<open>p\<close> has to
  hold a limb: \<open>2^L \<le> p\<close>.
\<close>

theorem multiply_constant_correct:
  assumes "0 \<le> x" "x < f" "0 \<le> y" "y < f" "0 < f" "f < 2 ^ 259" "2 ^ L \<le> p"
  shows "multiply p (ForeignField_from p x) (ForeignField_from p y) f s
           = (Inr (ForeignField_from p ((x * y) mod f)), s)
         \<and> ForeignField_toBigint (ForeignField_from p ((x * y) mod f)) = (x * y) mod f"
proof -
  have f: "f < 2 ^ L3" using assms(6) by (rule lt259_lt_L3)
  have x: "ForeignField_toBigint (ForeignField_from p x) = x"
    using assms f by (intro toBigint_from) auto
  have y: "ForeignField_toBigint (ForeignField_from p y) = y"
    using assms f by (intro toBigint_from) auto
  have r0: "0 \<le> (x * y) mod f"
    using assms(5) by simp
  have "(x * y) mod f < f"
    using assms(5) by simp
  with f have r1: "(x * y) mod f < 2 ^ L3" by linarith
  have "multiply p (ForeignField_from p x) (ForeignField_from p y) f s
           = (Inr (ForeignField_from p ((x * y) mod f)), s)"
    using assms(6) by (simp add: multiply_def pow259 x y ff_mod_def ret_def)
  moreover have "ForeignField_toBigint (ForeignField_from p ((x * y) mod f)) = (x * y) mod f"
    using assms(7) r0 r1 by (rule toBigint_from)
  ultimately show ?thesis by simp
qed

theorem multiply_constant_correct_witness:
  "multiply pallas (ForeignField_from pallas 5) (ForeignField_from pallas 7) (2 ^ 255 - 19) emptyCircuit
     = (Inr (ForeignField_from pallas 35), emptyCircuit)
   \<and> ForeignField_toBigint (ForeignField_from pallas 35) = 35"
  using multiply_constant_correct [of 5 "2 ^ 255 - 19" 7 pallas emptyCircuit] pallas_L(1)
  by simp

text \<open>
  C2, amended. \<open>multiply\<close>, \<open>inverse\<close> and \<open>divide\<close> reject every modulus
  \<open>f \<ge> 2^259\<close>, the ceiling \<open>2^259\<close> itself included, with the assertion error and the
  circuit unchanged: no witness and no constraint has been produced. Every \<open>f < 2^259\<close>
  passes the assertion: whatever the operation then returns, it is not that error. The
  largest accepted modulus is \<open>2^259 - 1\<close>.
\<close>

theorem modulus_bound_check:
  "(2 ^ 259 \<le> f \<longrightarrow>
      multiply p a b f s = (Inl (AssertionError ''Foreign modulus fits in 259 bits''), s)
      \<and> inverse_ff p a f s = (Inl (AssertionError ''Foreign modulus fits in 259 bits''), s)
      \<and> divide_ff p a b f z s = (Inl (AssertionError ''Foreign modulus fits in 259 bits''), s))
   \<and> (f < 2 ^ 259 \<longrightarrow>
      fst (multiply p a b f s) \<noteq> Inl (AssertionError ''Foreign modulus fits in 259 bits'')
      \<and> fst (inverse_ff p a f s) \<noteq> Inl (AssertionError ''Foreign modulus fits in 259 bits'')
      \<and> fst (divide_ff p a b f z s) \<noteq> Inl (AssertionError ''Foreign modulus fits in 259 bits''))"
  using multiply_reject [of f p a b s] inverse_reject [of f p a s] divide_reject [of f p a b z s]
    multiply_accept [of f p a b s] inverse_accept [of f p a s] divide_accept [of f p a b z s]
  by (simp add: modulus_error_def)

theorem modulus_bound_check_witness:
  "multiply pallas (ForeignField_from pallas 5) (ForeignField_from pallas 7) (2 ^ 259) emptyCircuit
     = (Inl (AssertionError ''Foreign modulus fits in 259 bits''), emptyCircuit)
   \<and> inverse_ff pallas (ForeignField_from pallas 5) (2 ^ 259) emptyCircuit
     = (Inl (AssertionError ''Foreign modulus fits in 259 bits''), emptyCircuit)
   \<and> divide_ff pallas (ForeignField_from pallas 5) (ForeignField_from pallas 7) (2 ^ 259) False emptyCircuit
     = (Inl (AssertionError ''Foreign modulus fits in 259 bits''), emptyCircuit)
   \<and> fst (multiply pallas (ForeignField_from pallas 5) (ForeignField_from pallas 7) (2 ^ 259 - 1) emptyCircuit)
       \<noteq> Inl (AssertionError ''Foreign modulus fits in 259 bits'')
   \<and> fst (inverse_ff pallas (ForeignField_from pallas 5) (2 ^ 259 - 1) emptyCircuit)
       \<noteq> Inl (AssertionError ''Foreign modulus fits in 259 bits'')
   \<and> fst (divide_ff pallas (ForeignField_from pallas 5) (ForeignField_from pallas 7) (2 ^ 259 - 1) False emptyCircuit)
       \<noteq> Inl (AssertionError ''Foreign modulus fits in 259 bits'')"
  using modulus_bound_check [of "2 ^ 259" pallas "ForeignField_from pallas 5" "ForeignField_from pallas 7"
      emptyCircuit False]
    modulus_bound_check [of "2 ^ 259 - 1" pallas "ForeignField_from pallas 5" "ForeignField_from pallas 7"
      emptyCircuit False]
  by simp

theorem modulus_ceiling_counterexample:
  "multiply pallas (ForeignField_from pallas 5) (ForeignField_from pallas 7) (2 ^ 259) emptyCircuit
     = (Inl (AssertionError ''Foreign modulus fits in 259 bits''), emptyCircuit)
   \<and> inverse_ff pallas (ForeignField_from pallas 5) (2 ^ 259) emptyCircuit
     = (Inl (AssertionError ''Foreign modulus fits in 259 bits''), emptyCircuit)
   \<and> divide_ff pallas (ForeignField_from pallas 5) (ForeignField_from pallas 7) (2 ^ 259) False emptyCircuit
     = (Inl (AssertionError ''Foreign modulus fits in 259 bits''), emptyCircuit)"
  by (simp add: multiply_def inverse_ff_def divide_ff_def pow259 throw_def)

text \<open>
  C3. \<open>split\<close> and \<open>collapse\<close> are mutually inverse on their intended domains: a triple
  of limbs, each in \<open>[0, 2^L)\<close>, is recovered by \<open>split\<close> from its \<open>collapse\<close>, and an
  unsigned integer below \<open>2^(3L)\<close> is recovered by \<open>collapse\<close> from its \<open>split\<close>.
\<close>

theorem split_collapse_roundtrip:
  "(0 \<le> x0 \<and> x0 < 2 ^ L \<and> 0 \<le> x1 \<and> x1 < 2 ^ L \<and> 0 \<le> x2 \<and> x2 < 2 ^ L
      \<longrightarrow> split (collapse (x0, x1, x2)) = (x0, x1, x2))
   \<and> (0 \<le> x \<and> x < 2 ^ (3 * L) \<longrightarrow> collapse (split x) = x)"
proof -
  have "3 * L = L3" by (simp add: L_def L3_def)
  then show ?thesis
    using split_collapse [of x0 x1 x2] collapse_split [of x] by simp
qed

theorem split_collapse_roundtrip_witness:
  "split (collapse (5, 2 ^ 88 - 1, 7)) = (5, 2 ^ 88 - 1, 7)
   \<and> collapse (split (2 ^ 264 - 1)) = 2 ^ 264 - 1"
  using split_collapse_roundtrip [of 5 "2 ^ 88 - 1" 7 "2 ^ 264 - 1"]
  by (simp add: L_def)

text \<open>
  C4. \<open>weakBound(x, f)\<close> returns \<open>x + (2^L - (f >> L2) - 1)\<close>: as a native field value
  always, and as this very integer when \<open>x\<close> is a limb, \<open>f\<close> fits three limbs and
  \<open>2^(L+1) \<le> p\<close>. For \<open>x = f >> L2\<close> the value is \<open>2^L - 1\<close>, the largest value that passes
  the range check \<open>< 2^L\<close>; for \<open>x = (f >> L2) + 1\<close> it is \<open>2^L\<close>, which fails the check.
\<close>

theorem weakBound_value:
  "toBigInt (weakBound p x f) = (toBigInt x + (2 ^ L - drop_bit L2 f - 1)) mod p
   \<and> (0 \<le> toBigInt x \<and> toBigInt x < 2 ^ L \<and> 0 \<le> f \<and> f < 2 ^ L3 \<and> 2 ^ (L + 1) \<le> p
        \<longrightarrow> toBigInt (weakBound p x f) = toBigInt x + (2 ^ L - drop_bit L2 f - 1))
   \<and> (2 ^ L < p \<and> toBigInt x = drop_bit L2 f
        \<longrightarrow> toBigInt (weakBound p x f) = 2 ^ L - 1 \<and> rangeCheckOk (toBigInt (weakBound p x f))
            \<and> (\<forall>v. rangeCheckOk v \<longrightarrow> v \<le> toBigInt (weakBound p x f)))
   \<and> (2 ^ L < p \<and> toBigInt x = drop_bit L2 f + 1
        \<longrightarrow> toBigInt (weakBound p x f) = 2 ^ L \<and> \<not> rangeCheckOk (toBigInt (weakBound p x f)))"
proof -
  let ?f2 = "drop_bit L2 f"
  have exact: "toBigInt (weakBound p x f) = toBigInt x + (2 ^ L - ?f2 - 1)"
    if h: "0 \<le> toBigInt x" "toBigInt x < 2 ^ L" "0 \<le> f" "f < 2 ^ L3" "2 ^ (L + 1) \<le> p"
  proof -
    have "?f2 = f div 2 ^ L2" by (simp add: drop_bit_eq_div)
    moreover have "f div 2 ^ L2 < 2 ^ L"
      using h(4) by (intro div_lt_bound) (simp_all add: L3_eq mult.commute)
    moreover have "0 \<le> f div 2 ^ L2"
      using h(3) by (simp add: pos_imp_zdiv_nonneg_iff)
    ultimately have f2: "0 \<le> ?f2" "?f2 < 2 ^ L" by simp_all
    have lo: "0 \<le> toBigInt x + (2 ^ L - ?f2 - 1)" using h(1) f2 by linarith
    have "toBigInt x + (2 ^ L - ?f2 - 1) < 2 * 2 ^ L" using h(2) f2 by linarith
    with h(5) have hi: "toBigInt x + (2 ^ L - ?f2 - 1) < p" by simp
    show ?thesis
      using lo hi by (simp add: toBigInt_weakBound mod_pos_pos_trivial)
  qed
  have pos: "(0::int) \<le> 2 ^ L - 1" by simp
  have at: "toBigInt (weakBound p x f) = 2 ^ L - 1"
    if h: "2 ^ L < p" "toBigInt x = ?f2"
  proof -
    have "(2 ^ L - 1) mod p = 2 ^ L - 1"
      using h(1) pos by (intro mod_pos_pos_trivial) linarith+
    then show ?thesis by (simp add: toBigInt_weakBound h(2))
  qed
  have above: "toBigInt (weakBound p x f) = 2 ^ L"
    if h: "2 ^ L < p" "toBigInt x = ?f2 + 1"
  proof -
    have "(2 ^ L) mod p = 2 ^ L"
      using h(1) by (intro mod_pos_pos_trivial) simp_all
    then show ?thesis by (simp add: toBigInt_weakBound h(2))
  qed
  show ?thesis
    using exact at above by (auto simp: toBigInt_weakBound rangeCheckOk_def)
qed

theorem weakBound_value_witness:
  "toBigInt (weakBound pallas (Variable 5) (5 * 2 ^ 176 + 3)) = 2 ^ 88 - 1
   \<and> rangeCheckOk (toBigInt (weakBound pallas (Variable 5) (5 * 2 ^ 176 + 3)))
   \<and> toBigInt (weakBound pallas (Variable 6) (5 * 2 ^ 176 + 3)) = 2 ^ 88
   \<and> \<not> rangeCheckOk (toBigInt (weakBound pallas (Variable 6) (5 * 2 ^ 176 + 3)))
   \<and> toBigInt (weakBound pallas (Variable 2) (5 * 2 ^ 176 + 3)) = 2 + (2 ^ 88 - 5 - 1)"
proof -
  let ?f = "5 * 2 ^ 176 + 3 :: int"
  have d: "drop_bit L2 ?f = 5"
    by (simp add: L2_def drop_bit_eq_div)
  have h5: "2 ^ L < pallas \<and> toBigInt (Variable 5) = drop_bit L2 ?f"
    using pallas_L(2) d by simp
  have h6: "2 ^ L < pallas \<and> toBigInt (Variable 6) = drop_bit L2 ?f + 1"
    using pallas_L(2) d by simp
  have h2: "0 \<le> toBigInt (Variable 2) \<and> toBigInt (Variable 2) < 2 ^ L \<and> 0 \<le> ?f \<and> ?f < 2 ^ L3
      \<and> 2 ^ (L + 1) \<le> pallas"
    using pallas_L(4) by (simp add: L_def L3_def)
  have a: "toBigInt (weakBound pallas (Variable 5) ?f) = 2 ^ L - 1
      \<and> rangeCheckOk (toBigInt (weakBound pallas (Variable 5) ?f))"
    using weakBound_value [of pallas "Variable 5" ?f] h5 by blast
  have b: "toBigInt (weakBound pallas (Variable 6) ?f) = 2 ^ L
      \<and> \<not> rangeCheckOk (toBigInt (weakBound pallas (Variable 6) ?f))"
    using weakBound_value [of pallas "Variable 6" ?f] h6 by blast
  have c: "toBigInt (weakBound pallas (Variable 2) ?f) = toBigInt (Variable 2) + (2 ^ L - drop_bit L2 ?f - 1)"
    using weakBound_value [of pallas "Variable 2" ?f] h2 by blast
  show ?thesis
    using a b c unfolding d by (simp add: L_def rangeCheckOk_def)
qed

text \<open>
  C5. In the single signed addition step, with \<open>r = x + sign * y\<close> over the integers, the
  witnessed overflow is \<open>0\<close> whenever \<open>f = 0\<close>, and otherwise \<open>+1\<close> if \<open>sign = +1\<close> and
  \<open>r \<ge> f\<close>, \<open>-1\<close> if \<open>sign = -1\<close> and \<open>r < 0\<close>, and \<open>0\<close> in every other case. The
  overflow that \<open>singleAdd\<close> returns is the variable holding this value in the native
  field.
\<close>

theorem singleAdd_overflow:
  "singleAdd_compute (bigint3 x) (bigint3 y) sign f (split f) ! 3 =
     (if f = 0 then 0
      else if sign = Plus1 \<and> f \<le> ForeignField_toBigint x + sign_val sign * ForeignField_toBigint y then 1
      else if sign = Minus1 \<and> ForeignField_toBigint x + sign_val sign * ForeignField_toBigint y < 0 then - 1
      else 0)
   \<and> map_sum id snd (fst (singleAdd p x y sign f s)) =
       Inr (Variable (singleAdd_compute (bigint3 x) (bigint3 y) sign f (split f) ! 3 mod p))"
  by (cases sign)
    (simp_all add: singleAdd_compute_overflow ForeignField_toBigint_def singleAdd_result Let_def
        singleAdd_compute_length)

theorem singleAdd_overflow_witness:
  "singleAdd_compute (3, 0, 0) (4, 0, 0) Plus1 5 (split 5) ! 3 = 1
   \<and> singleAdd_compute (3, 0, 0) (4, 0, 0) Minus1 5 (split 5) ! 3 = - 1
   \<and> singleAdd_compute (3, 0, 0) (1, 0, 0) Plus1 5 (split 5) ! 3 = 0
   \<and> singleAdd_compute (3, 0, 0) (4, 0, 0) Plus1 0 (split 0) ! 3 = 0
   \<and> map_sum id snd (fst (singleAdd pallas (Variable 3, Variable 0, Variable 0)
        (Variable 4, Variable 0, Variable 0) Minus1 5 emptyCircuit)) = Inr (Variable (pallas - 1))"
  using singleAdd_overflow [of "(Variable 3, Variable 0, Variable 0)" "(Variable 4, Variable 0, Variable 0)"
      Plus1 5 pallas emptyCircuit]
    singleAdd_overflow [of "(Variable 3, Variable 0, Variable 0)" "(Variable 4, Variable 0, Variable 0)"
      Minus1 5 pallas emptyCircuit]
    singleAdd_overflow [of "(Variable 3, Variable 0, Variable 0)" "(Variable 1, Variable 0, Variable 0)"
      Plus1 5 pallas emptyCircuit]
    singleAdd_overflow [of "(Variable 3, Variable 0, Variable 0)" "(Variable 4, Variable 0, Variable 0)"
      Plus1 0 pallas emptyCircuit]
  by (simp add: bigint3_def ForeignField_toBigint_def collapse_arith pallas_def)

text \<open>
  C6, amended. Let \<open>f < 2^(3L)\<close> and let \<open>a\<close>, \<open>b\<close>, \<open>c\<close> be elements whose values are
  below \<open>f\<close>, with \<open>2^L \<le> p\<close>. Then \<open>sumChain([a, b, c], [+1, -1], f)\<close> decodes to
  \<open>(a + b - c) mod f\<close> when all operands are constants and when some operand is a
  circuit variable (\<open>a'\<close>, \<open>b'\<close>, \<open>c'\<close> hold the same values), and the two results have
  the same limbs. In the constant case, for operands and signs of any length, the result
  is the limb split of \<open>operands[0] + \<Sum> sign[i] * operands[i + 1]\<close> reduced modulo \<open>f\<close>,
  and the circuit is untouched. Operands that are not below \<open>f\<close> are left out: the
  provable chain subtracts or adds \<open>f\<close> at most once per step.
\<close>

theorem sumChain_three_operands:
  assumes "every3 isConstant a" "every3 isConstant b" "every3 isConstant c"
    and "\<not> (every3 isConstant a' \<and> every3 isConstant b' \<and> every3 isConstant c')"
    and "bigint3 a' = bigint3 a" "bigint3 b' = bigint3 b" "bigint3 c' = bigint3 c"
    and "0 \<le> ForeignField_toBigint a" "ForeignField_toBigint a < f"
    and "0 \<le> ForeignField_toBigint b" "ForeignField_toBigint b < f"
    and "0 \<le> ForeignField_toBigint c" "ForeignField_toBigint c < f"
    and "f < 2 ^ (3 * L)" and "2 ^ L \<le> p"
  shows "(\<exists>rc rv s'.
       sumChain p [a, b, c] [Plus1, Minus1] f s = (Inr rc, s)
     \<and> sumChain p [a', b', c'] [Plus1, Minus1] f s = (Inr rv, s')
     \<and> rc = ForeignField_from p
              (ff_mod (ForeignField_toBigint a + ForeignField_toBigint b - ForeignField_toBigint c) f)
     \<and> ForeignField_toBigint rc
         = (ForeignField_toBigint a + ForeignField_toBigint b - ForeignField_toBigint c) mod f
     \<and> ForeignField_toBigint rv
         = (ForeignField_toBigint a + ForeignField_toBigint b - ForeignField_toBigint c) mod f
     \<and> bigint3 rv = bigint3 rc)
   \<and> (\<forall>x sign. list_all (every3 isConstant) x \<and> length x = length sign + 1 \<longrightarrow>
         sumChain p x sign f s =
           (Inr (ForeignField_from p (ff_mod
              (ForeignField_toBigint (x ! 0)
                + (\<Sum>i < length sign. sign_val (sign ! i) * ForeignField_toBigint (x ! (i + 1)))) f)),
            s))"
  using sumChain_three_operands_aux [OF assms] sumChain_constant [of _ _ p f s] by blast

theorem sumChain_three_operands_witness:
  "\<exists>rc rv s'.
       sumChain pallas [(Constant 3, Constant 0, Constant 0), (Constant 4, Constant 0, Constant 0),
          (Constant 1, Constant 0, Constant 0)] [Plus1, Minus1] 5 emptyCircuit = (Inr rc, emptyCircuit)
     \<and> sumChain pallas [(Variable 3, Variable 0, Variable 0), (Variable 4, Variable 0, Variable 0),
          (Variable 1, Variable 0, Variable 0)] [Plus1, Minus1] 5 emptyCircuit = (Inr rv, s')
     \<and> ForeignField_toBigint rc = (3 + 4 - 1) mod 5
     \<and> ForeignField_toBigint rv = (3 + 4 - 1) mod 5
     \<and> bigint3 rv = bigint3 rc"
proof -
  let ?a = "(Constant 3, Constant 0, Constant 0)" and ?b = "(Constant 4, Constant 0, Constant 0)"
    and ?c = "(Constant 1, Constant 0, Constant 0)"
  let ?a' = "(Variable 3, Variable 0, Variable 0)" and ?b' = "(Variable 4, Variable 0, Variable 0)"
    and ?c' = "(Variable 1, Variable 0, Variable 0)"
  have v: "ForeignField_toBigint ?a = 3" "ForeignField_toBigint ?b = 4" "ForeignField_toBigint ?c = 1"
    by (simp_all add: ForeignField_toBigint_def bigint3_def collapse_arith)
  have c: "every3 isConstant ?a" "every3 isConstant ?b" "every3 isConstant ?c" by simp_all
  have n: "\<not> (every3 isConstant ?a' \<and> every3 isConstant ?b' \<and> every3 isConstant ?c')" by simp
  have e: "bigint3 ?a' = bigint3 ?a" "bigint3 ?b' = bigint3 ?b" "bigint3 ?c' = bigint3 ?c"
    by (simp_all add: bigint3_def)
  have r: "0 \<le> ForeignField_toBigint ?a" "ForeignField_toBigint ?a < 5"
    "0 \<le> ForeignField_toBigint ?b" "ForeignField_toBigint ?b < 5"
    "0 \<le> ForeignField_toBigint ?c" "ForeignField_toBigint ?c < 5"
    by (simp_all add: v)
  have f: "(5::int) < 2 ^ (3 * L)" by (simp add: L_def)
  note t = sumChain_three_operands [OF c n e r f pallas_L(1), of emptyCircuit, THEN conjunct1]
  then show ?thesis unfolding v by blast
qed

theorem sumChain_unreduced_counterexample:
  "fst (sumChain pallas [(Variable 7, Variable 0, Variable 0), (Variable 7, Variable 0, Variable 0),
          (Variable 0, Variable 0, Variable 0)] [Plus1, Minus1] 5 emptyCircuit)
     = Inr (Variable 9, Variable 0, Variable 0)
   \<and> ForeignField_toBigint (Variable 9, Variable 0, Variable 0) = 9
   \<and> fst (sumChain pallas [(Constant 7, Constant 0, Constant 0), (Constant 7, Constant 0, Constant 0),
          (Constant 0, Constant 0, Constant 0)] [Plus1, Minus1] 5 emptyCircuit)
     = Inr (Constant 4, Constant 0, Constant 0)
   \<and> ForeignField_toBigint (Constant 4, Constant 0, Constant 0) = 4
   \<and> (7 + 7 - 0) mod 5 = (4 :: int)"
  by code_simp




text \<open>
  C8. Let \<open>0 < f < 2^259\<close> and \<open>2^L \<le> p\<close>. On a fully constant \<open>x\<close>, \<open>inverse(x, f)\<close>
  fails with the error "inverse exists", the circuit unchanged, exactly when
  \<open>gcd(x, f) \<noteq> 1\<close>, and otherwise returns the limb split of an inverse of \<open>x\<close> in
  \<open>[0, f)\<close>. On an \<open>x\<close> that is not fully constant it returns without an error: it
  witnesses the limbs of the modular inverse when there is one and the all-zero triple
  otherwise, runs the multiplication core on \<open>x\<close> and the witnessed triple, range
  checks, and last asserts \<open>r01 = 1\<close> and \<open>r2 = 0\<close> for the remainder of the core. When
  \<open>gcd(x, f) \<noteq> 1\<close> the value of \<open>r01\<close> is not 1, so the first of these assertions
  cannot hold.
\<close>

theorem inverse_existence:
  assumes "0 < f" "f < 2 ^ 259" "2 ^ L \<le> p"
  shows
  "(every3 isConstant x \<longrightarrow>
      ((inverse_ff p x f s = (Inl (AssertionError ''inverse exists''), s))
          \<longleftrightarrow> gcd (ForeignField_toBigint x) f \<noteq> 1)
      \<and> (gcd (ForeignField_toBigint x) f = 1 \<longrightarrow>
           (\<exists>v. inverse_ff p x f s = (Inr (ForeignField_from p v), s)
                \<and> 0 \<le> v \<and> v < f \<and> (ForeignField_toBigint x * v) mod f = 1 mod f)))
   \<and> (\<not> every3 isConstant x \<longrightarrow>
      (\<exists>v0 v1 v2 r01 r2 q q2Bound s2.
         (v0, v1, v2) = (case modInverse (ForeignField_toBigint x) f of
                           None \<Rightarrow> (0, 0, 0) | Some v \<Rightarrow> split v)
       \<and> multiplyNoRangeCheck p x (Variable v0, Variable v1, Variable v2) f
            (s\<lparr>witnesses := witnesses s @ [v0, v1, v2]\<rparr>) = (Inr (r01, r2, q, q2Bound), s2)
       \<and> inverse_ff p x f s =
           (Inr (Variable v0, Variable v1, Variable v2),
            s2\<lparr>constraints := constraints s2 @
              [MultiRangeCheck q,
               MultiRangeCheck (Variable v0, Variable v1, Variable v2),
               MultiRangeCheck (q2Bound, weakBound p (Variable v2) f, Constant 0),
               AssertEquals r01 (Constant 1),
               AssertEquals r2 (Constant 0)]\<rparr>)
       \<and> (gcd (ForeignField_toBigint x) f \<noteq> 1 \<longrightarrow>
             (v0, v1, v2) = (0, 0, 0) \<and> toBigInt r01 \<noteq> 1)
       \<and> (gcd (ForeignField_toBigint x) f = 1 \<longrightarrow>
             0 \<le> collapse (v0, v1, v2) \<and> collapse (v0, v1, v2) < f
             \<and> (ForeignField_toBigint x * collapse (v0, v1, v2)) mod f = 1 mod f)))"
proof (intro conjI impI)
  let ?X = "ForeignField_toBigint x"
  have f0: "f \<noteq> 0" using assms(1) by simp
  have p2: "1 < p"
  proof -
    have "(2::int) ^ 1 \<le> 2 ^ L" unfolding L_def by (rule power_increasing) simp_all
    with assms(3) show ?thesis by simp
  qed
  have one: "Field_new p 1 = Constant 1" "Field_new p 0 = Constant 0"
    using p2 by (simp_all add: Field_new_def)
  {
    assume c: "every3 isConstant x"
    show "(inverse_ff p x f s = (Inl (AssertionError ''inverse exists''), s))
          \<longleftrightarrow> gcd ?X f \<noteq> 1"
      using c assms(2)
      by (simp add: inverse_ff_def pow259 modInverse_def ret_def throw_def)
  }
  {
    assume c: "every3 isConstant x" and g: "gcd ?X f = 1"
    then obtain v where v: "modInverse ?X f = Some v"
      by (simp add: modInverse_def)
    have "inverse_ff p x f s = (Inr (ForeignField_from p v), s)"
      using c assms(2) v by (simp add: inverse_ff_def pow259 ret_def)
    then show "\<exists>v. inverse_ff p x f s = (Inr (ForeignField_from p v), s)
                \<and> 0 \<le> v \<and> v < f \<and> (?X * v) mod f = 1 mod f"
      using modInverse_Some [OF assms(1) v] by blast
  }
  {
    assume nc: "\<not> every3 isConstant x"
    obtain v0 v1 v2 where w: "(case modInverse ?X f of
               None \<Rightarrow> [0, 0, 0]
             | Some xInv \<Rightarrow> (case split xInv of (v0, v1, v2) \<Rightarrow> [v0, v1, v2])) = [v0, v1, v2]"
      and t: "(v0, v1, v2) = (case modInverse ?X f of None \<Rightarrow> (0, 0, 0) | Some v \<Rightarrow> split v)"
      using inverse_witness_list by blast
    have limbs: "v0 mod p = v0 \<and> v1 mod p = v1 \<and> v2 mod p = v2"
      using t assms(3) by (cases "modInverse ?X f") (auto simp: split_arith limb_mod_native)
    obtain r01 r2 q q2Bound s2 where m:
      "multiplyNoRangeCheck p x (Variable v0, Variable v1, Variable v2) f
            (s\<lparr>witnesses := witnesses s @ [v0, v1, v2]\<rparr>) = (Inr (r01, r2, q, q2Bound), s2)"
      using multiplyNoRangeCheck_total [OF f0] by blast
    have r: "inverse_ff p x f s =
           (Inr (Variable v0, Variable v1, Variable v2),
            s2\<lparr>constraints := constraints s2 @
              [MultiRangeCheck q,
               MultiRangeCheck (Variable v0, Variable v1, Variable v2),
               MultiRangeCheck (q2Bound, weakBound p (Variable v2) f, Constant 0),
               AssertEquals r01 (Constant 1),
               AssertEquals r2 (Constant 0)]\<rparr>)"
      using inverse_provable [of x f v0 v1 v2 p s r01 r2 q q2Bound s2] nc assms(2) w m
      by (simp add: limbs one)
    have none: "(v0, v1, v2) = (0, 0, 0) \<and> toBigInt r01 \<noteq> 1" if g: "gcd ?X f \<noteq> 1"
    proof -
      from g have z: "(v0, v1, v2) = (0, 0, 0)" using t by (simp add: modInverse_def)
      with m multiplyNoRangeCheck_zero_operand [OF f0, of p x _ r01 r2 q q2Bound s2]
      have "r01 = Variable 0" by simp
      with z show ?thesis by simp
    qed
    have some: "0 \<le> collapse (v0, v1, v2) \<and> collapse (v0, v1, v2) < f
             \<and> (?X * collapse (v0, v1, v2)) mod f = 1 mod f" if g: "gcd ?X f = 1"
    proof -
      from g obtain v where v: "modInverse ?X f = Some v" by (simp add: modInverse_def)
      note iv = modInverse_Some [OF assms(1) v]
      from iv assms(2) have "v < 2 ^ L3" using lt259_lt_L3 [of f] by linarith
      with iv have "collapse (split v) = v" by (simp add: collapse_split)
      with t v iv show ?thesis by simp
    qed
    show "\<exists>v0 v1 v2 r01 r2 q q2Bound s2.
         (v0, v1, v2) = (case modInverse ?X f of None \<Rightarrow> (0, 0, 0) | Some v \<Rightarrow> split v)
       \<and> multiplyNoRangeCheck p x (Variable v0, Variable v1, Variable v2) f
            (s\<lparr>witnesses := witnesses s @ [v0, v1, v2]\<rparr>) = (Inr (r01, r2, q, q2Bound), s2)
       \<and> inverse_ff p x f s =
           (Inr (Variable v0, Variable v1, Variable v2),
            s2\<lparr>constraints := constraints s2 @
              [MultiRangeCheck q,
               MultiRangeCheck (Variable v0, Variable v1, Variable v2),
               MultiRangeCheck (q2Bound, weakBound p (Variable v2) f, Constant 0),
               AssertEquals r01 (Constant 1),
               AssertEquals r2 (Constant 0)]\<rparr>)
       \<and> (gcd ?X f \<noteq> 1 \<longrightarrow> (v0, v1, v2) = (0, 0, 0) \<and> toBigInt r01 \<noteq> 1)
       \<and> (gcd ?X f = 1 \<longrightarrow>
             0 \<le> collapse (v0, v1, v2) \<and> collapse (v0, v1, v2) < f
             \<and> (?X * collapse (v0, v1, v2)) mod f = 1 mod f)"
    proof (intro exI conjI)
      show "(v0, v1, v2) = (case modInverse ?X f of None \<Rightarrow> (0, 0, 0) | Some v \<Rightarrow> split v)"
        by (rule t)
      show "multiplyNoRangeCheck p x (Variable v0, Variable v1, Variable v2) f
            (s\<lparr>witnesses := witnesses s @ [v0, v1, v2]\<rparr>) = (Inr (r01, r2, q, q2Bound), s2)"
        by (rule m)
      show "inverse_ff p x f s =
           (Inr (Variable v0, Variable v1, Variable v2),
            s2\<lparr>constraints := constraints s2 @
              [MultiRangeCheck q,
               MultiRangeCheck (Variable v0, Variable v1, Variable v2),
               MultiRangeCheck (q2Bound, weakBound p (Variable v2) f, Constant 0),
               AssertEquals r01 (Constant 1),
               AssertEquals r2 (Constant 0)]\<rparr>)"
        by (rule r)
      show "gcd ?X f \<noteq> 1 \<longrightarrow> (v0, v1, v2) = (0, 0, 0) \<and> toBigInt r01 \<noteq> 1"
        using none by blast
      show "gcd ?X f = 1 \<longrightarrow>
             0 \<le> collapse (v0, v1, v2) \<and> collapse (v0, v1, v2) < f
             \<and> (?X * collapse (v0, v1, v2)) mod f = 1 mod f"
        using some by blast
    qed
  }
qed

theorem inverse_existence_witness:
  "inverse_ff pallas (Constant 2, Constant 0, Constant 0) 4 emptyCircuit
     = (Inl (AssertionError ''inverse exists''), emptyCircuit)
   \<and> (\<exists>v. inverse_ff pallas (Constant 3, Constant 0, Constant 0) 7 emptyCircuit
             = (Inr (ForeignField_from pallas v), emptyCircuit)
          \<and> 0 \<le> v \<and> v < 7 \<and> (3 * v) mod 7 = 1 mod 7)
   \<and> (\<exists>r01 r2 q q2Bound s2.
          inverse_ff pallas (Variable 2, Variable 0, Variable 0) 4 emptyCircuit =
             (Inr (Variable 0, Variable 0, Variable 0),
              s2\<lparr>constraints := constraints s2 @
                [MultiRangeCheck q,
                 MultiRangeCheck (Variable 0, Variable 0, Variable 0),
                 MultiRangeCheck (q2Bound, weakBound pallas (Variable 0) 4, Constant 0),
                 AssertEquals r01 (Constant 1),
                 AssertEquals r2 (Constant 0)]\<rparr>)
          \<and> toBigInt r01 \<noteq> 1)
   \<and> (\<exists>v0 v1 v2 s'.
          inverse_ff pallas (Variable 3, Variable 0, Variable 0) 7 emptyCircuit =
             (Inr (Variable v0, Variable v1, Variable v2), s')
          \<and> (3 * collapse (v0, v1, v2)) mod 7 = 1 mod 7)"
proof -
  let ?c2 = "(Constant 2, Constant 0, Constant 0)" and ?c3 = "(Constant 3, Constant 0, Constant 0)"
  let ?v2 = "(Variable 2, Variable 0, Variable 0)" and ?v3 = "(Variable 3, Variable 0, Variable 0)"
  have v: "ForeignField_toBigint ?c2 = 2" "ForeignField_toBigint ?c3 = 3"
    "ForeignField_toBigint ?v2 = 2" "ForeignField_toBigint ?v3 = 3"
    by (simp_all add: ForeignField_toBigint_def bigint3_def collapse_arith)
  have g4: "gcd (2::int) 4 \<noteq> 1" by code_simp
  have g7: "gcd (3::int) 7 = 1" by code_simp
  have f4: "(0::int) < 4" "(4::int) < 2 ^ 259" by simp_all
  have f7: "(0::int) < 7" "(7::int) < 2 ^ 259" by simp_all
  have k: "every3 isConstant ?c2" "every3 isConstant ?c3"
    "\<not> every3 isConstant ?v2" "\<not> every3 isConstant ?v3" by simp_all
  note a = inverse_existence [OF f4 pallas_L(1), of ?c2 emptyCircuit, THEN conjunct1, rule_format, OF k(1)]
  note b = inverse_existence [OF f7 pallas_L(1), of ?c3 emptyCircuit, THEN conjunct1, rule_format, OF k(2)]
  note c = inverse_existence [OF f4 pallas_L(1), of ?v2 emptyCircuit, THEN conjunct2, rule_format, OF k(3)]
  note d = inverse_existence [OF f7 pallas_L(1), of ?v3 emptyCircuit, THEN conjunct2, rule_format, OF k(4)]
  have A: "inverse_ff pallas ?c2 4 emptyCircuit = (Inl (AssertionError ''inverse exists''), emptyCircuit)"
    using a g4 unfolding v by blast
  have B: "\<exists>v. inverse_ff pallas ?c3 7 emptyCircuit = (Inr (ForeignField_from pallas v), emptyCircuit)
          \<and> 0 \<le> v \<and> v < 7 \<and> (3 * v) mod 7 = 1 mod 7"
    using b g7 unfolding v by blast
  have C: "\<exists>r01 r2 q q2Bound s2.
          inverse_ff pallas ?v2 4 emptyCircuit =
             (Inr (Variable 0, Variable 0, Variable 0),
              s2\<lparr>constraints := constraints s2 @
                [MultiRangeCheck q,
                 MultiRangeCheck (Variable 0, Variable 0, Variable 0),
                 MultiRangeCheck (q2Bound, weakBound pallas (Variable 0) 4, Constant 0),
                 AssertEquals r01 (Constant 1),
                 AssertEquals r2 (Constant 0)]\<rparr>)
          \<and> toBigInt r01 \<noteq> 1"
  proof -
    from c obtain v0 v1 v2 r01 r2 q q2Bound s2 where
      i: "inverse_ff pallas ?v2 4 emptyCircuit =
           (Inr (Variable v0, Variable v1, Variable v2),
            s2\<lparr>constraints := constraints s2 @
              [MultiRangeCheck q,
               MultiRangeCheck (Variable v0, Variable v1, Variable v2),
               MultiRangeCheck (q2Bound, weakBound pallas (Variable v2) 4, Constant 0),
               AssertEquals r01 (Constant 1),
               AssertEquals r2 (Constant 0)]\<rparr>)"
      and z: "gcd (ForeignField_toBigint ?v2) 4 \<noteq> 1 \<longrightarrow> (v0, v1, v2) = (0, 0, 0) \<and> toBigInt r01 \<noteq> 1"
      apply (elim exE conjE)
      apply (rule that)
       apply assumption
      apply assumption
      done
    from z g4 have "v0 = 0" "v1 = 0" "v2 = 0" "toBigInt r01 \<noteq> 1" unfolding v by simp_all
    with i show ?thesis by blast
  qed
  have D: "\<exists>v0 v1 v2 s'.
          inverse_ff pallas ?v3 7 emptyCircuit = (Inr (Variable v0, Variable v1, Variable v2), s')
          \<and> (3 * collapse (v0, v1, v2)) mod 7 = 1 mod 7"
  proof -
    from d obtain v0 v1 v2 s' where
      i: "inverse_ff pallas ?v3 7 emptyCircuit = (Inr (Variable v0, Variable v1, Variable v2), s')"
      and z: "gcd (ForeignField_toBigint ?v3) 7 = 1 \<longrightarrow>
             0 \<le> collapse (v0, v1, v2) \<and> collapse (v0, v1, v2) < 7
             \<and> (ForeignField_toBigint ?v3 * collapse (v0, v1, v2)) mod 7 = 1 mod 7"
      apply (elim exE conjE)
      apply (rule that)
       apply assumption
      apply assumption
      done
    from z g7 have "(3 * collapse (v0, v1, v2)) mod 7 = 1 mod 7" unfolding v by simp
    with i show ?thesis by blast
  qed
  from A B C D show ?thesis by blast
qed



text \<open>
  C10. When \<open>x\<close> and \<open>y\<close> are both fully constant, \<open>divide\<close> returns the same outcome
  for both values of \<open>allowZeroOverZero\<close>, whatever the modulus; and for \<open>f < 2^259\<close> and
  \<open>y\<close> not invertible modulo \<open>f\<close> (\<open>gcd(y, f) \<noteq> 1\<close>) the outcome is the error
  "inverse exists", with the circuit unchanged.
\<close>

theorem divide_constant_ignores_flag:
  "(every3 isConstant x \<and> every3 isConstant y \<longrightarrow>
      divide_ff p x y f True s = divide_ff p x y f False s)
   \<and> (every3 isConstant x \<and> every3 isConstant y \<and> f < 2 ^ 259
        \<and> gcd (ForeignField_toBigint y) f \<noteq> 1 \<longrightarrow>
      divide_ff p x y f allowZeroOverZero s = (Inl (AssertionError ''inverse exists''), s))"
  by (simp add: divide_ff_def pow259 modInverse_def throw_def)

theorem divide_constant_ignores_flag_witness:
  "divide_ff pallas (ForeignField_from pallas 3) (ForeignField_from pallas 2) 4 True emptyCircuit
     = divide_ff pallas (ForeignField_from pallas 3) (ForeignField_from pallas 2) 4 False emptyCircuit
   \<and> divide_ff pallas (ForeignField_from pallas 3) (ForeignField_from pallas 2) 4 True emptyCircuit
     = (Inl (AssertionError ''inverse exists''), emptyCircuit)
   \<and> divide_ff pallas (ForeignField_from pallas 3) (ForeignField_from pallas 2) 4 False emptyCircuit
     = (Inl (AssertionError ''inverse exists''), emptyCircuit)"
proof -
  have t: "ForeignField_toBigint (ForeignField_from pallas 2) = 2"
    using toBigint_from [of pallas 2] pallas_L(1) by (simp add: L3_def)
  have g: "gcd (ForeignField_toBigint (ForeignField_from pallas 2)) 4 \<noteq> 1"
    unfolding t by (simp add: gcd_red_int [of 4 2])
  show ?thesis
    using divide_constant_ignores_flag [of "ForeignField_from pallas 3" "ForeignField_from pallas 2" pallas 4
        emptyCircuit True]
      divide_constant_ignores_flag [of "ForeignField_from pallas 3" "ForeignField_from pallas 2" pallas 4
        emptyCircuit False] g
    by simp
qed

end
